theory Spec2Isabelle
  imports Complex_Main "HOL-Library.AList"
begin

section \<open>Python values used by the simulation engine\<close>

text \<open>
  The engine is Python. Exceptions are values of \<open>py_error\<close>; a function that can raise
  returns \<open>py_error + 'a\<close>. Python \<open>int\<close> is \<open>int\<close>. A Python \<open>float\<close> is a binary64
  number: it is modelled by the rational it denotes, and every float operation rounds its exact
  result with \<open>fl\<close> (round to nearest, ties to even, 53 significant bits, gradual underflow
  below \<open>2 powi (- 1022)\<close>). The exponent range of \<open>fl\<close> is unbounded above: a result of
  magnitude \<open>2 powi 1024\<close> or more stands for an overflowed result, which Python holds as an
  infinity. Where the code converts such a result, or an integer that large, the model raises
  as Python does (\<open>py_float\<close>, \<open>int_of_product\<close>). Infinite and NaN inputs are not modelled.
\<close>

datatype py_error = IndexError | ZeroDivisionError | OverflowError | ValueError

definition ebind :: "py_error + 'a \<Rightarrow> ('a \<Rightarrow> py_error + 'b) \<Rightarrow> py_error + 'b" where
  "ebind m f = (case m of Inl e \<Rightarrow> Inl e | Inr x \<Rightarrow> f x)"

function ilog2 :: "rat \<Rightarrow> int" where
  "ilog2 x = (if x \<le> 0 then 0
              else if x < 1 then ilog2 (2 * x) - 1
              else if 2 \<le> x then ilog2 (x / 2) + 1
              else 0)"
  by pat_completeness auto
termination
proof (relation "measure (\<lambda>x. if x < 1 then nat \<lceil>1 / x\<rceil> else nat \<lfloor>x\<rfloor>)", goal_cases)
  case 1 show ?case by simp
next
  case (2 x)
  then have x: "0 < x" "x < 1" by auto
  show ?case
  proof (cases "2 * x < 1")
    case True
    have "1 / (2 * x) = (1 / x) / 2" by simp
    moreover have "2 < 1 / x" using True x by (simp add: field_simps)
    ultimately have "\<lceil>1 / (2 * x)\<rceil> < \<lceil>1 / x\<rceil>" by (simp add: ceiling_less_iff) linarith
    moreover have "0 < \<lceil>1 / x\<rceil>" using x by simp
    ultimately show ?thesis using x True by simp
  next
    case False
    then have "\<lfloor>2 * x\<rfloor> = 1" using x by (simp add: floor_eq_iff)
    moreover have "1 < 1 / x" using x by (simp add: field_simps)
    then have "2 \<le> \<lceil>1 / x\<rceil>" by (simp add: le_ceiling_iff)
    ultimately show ?thesis using x False by simp
  qed
next
  case (3 x)
  then have x: "2 \<le> x" by auto
  have "\<lfloor>x / 2\<rfloor> < \<lfloor>x\<rfloor>" using x by (simp add: floor_less_iff) linarith
  then show ?case using x by simp
qed

declare ilog2.simps [simp del]

definition round_even :: "rat \<Rightarrow> int" where
  "round_even y = (let f = \<lfloor>y\<rfloor>; r = y - of_int f in
     if r < 1 / 2 then f else if 1 / 2 < r then f + 1 else if even f then f else f + 1)"

text \<open>
  \<open>quantum x\<close> is the spacing of binary64 numbers around \<open>x\<close>: \<open>2 powi (e - 52)\<close> where
  \<open>2 powi e \<le> \<bar>x\<bar> < 2 powi (e + 1)\<close>, and the subnormal spacing \<open>2 powi (- 1074)\<close> below
  \<open>2 powi (- 1022)\<close>. \<open>fl x\<close> is the multiple of the quantum nearest to \<open>x\<close>.
\<close>

definition quantum :: "rat \<Rightarrow> rat" where
  "quantum x = 2 powi (max (ilog2 \<bar>x\<bar>) (- 1022) - 52)"

definition fl :: "rat \<Rightarrow> rat" where
  "fl x = (if x = 0 then 0
           else sgn x * of_int (round_even (\<bar>x\<bar> / quantum x)) * quantum x)"

text \<open>\<open>int(x)\<close> on a float truncates towards zero.\<close>

definition py_int :: "rat \<Rightarrow> int" where
  "py_int x = (if 0 \<le> x then \<lfloor>x\<rfloor> else \<lceil>x\<rceil>)"

text \<open>
  A float result of magnitude \<open>2 powi 1024\<close> or more has overflowed. Converting an integer to
  a float (as \<open>int * float\<close> does with its left operand) raises OverflowError when the
  rounded integer overflows.
\<close>

definition float_overflow :: "rat \<Rightarrow> bool" where
  "float_overflow x = (2 powi 1024 \<le> \<bar>x\<bar>)"

definition py_float :: "int \<Rightarrow> py_error + rat" where
  "py_float n =
     (if float_overflow (fl (of_int n)) then Inl OverflowError else Inr (fl (of_int n)))"

text \<open>
  \<open>int(w * r)\<close> for floats \<open>w\<close> and \<open>r\<close>, where \<open>r\<close> may be an overflowed quotient:
  \<open>0.0 * inf\<close> is NaN, on which \<open>int\<close> raises ValueError; on an infinite product it raises
  OverflowError.
\<close>

definition int_of_product :: "rat \<Rightarrow> rat \<Rightarrow> py_error + int" where
  "int_of_product w r =
     (if float_overflow r then (if w = 0 then Inl ValueError else Inl OverflowError)
      else if float_overflow (fl (w * r)) then Inl OverflowError
      else Inr (py_int (fl (w * r))))"

text \<open>
  Subscripts. \<open>py_norm n i\<close> is the position that index \<open>i\<close> denotes in a sequence of
  \<open>n\<close> elements (\<open>- 1\<close> is the last one), or nothing when Python raises IndexError.
\<close>

definition py_norm :: "nat \<Rightarrow> int \<Rightarrow> nat option" where
  "py_norm n i =
     (if 0 \<le> i \<and> i < int n then Some (nat i)
      else if i < 0 \<and> - int n \<le> i then Some (nat (int n + i))
      else None)"

definition py_index :: "'a list \<Rightarrow> int \<Rightarrow> py_error + 'a" where
  "py_index xs i = (case py_norm (length xs) i of None \<Rightarrow> Inl IndexError | Some j \<Rightarrow> Inr (xs ! j))"

definition py_setitem :: "'a list \<Rightarrow> int \<Rightarrow> 'a \<Rightarrow> py_error + 'a list" where
  "py_setitem xs i v =
     (case py_norm (length xs) i of None \<Rightarrow> Inl IndexError | Some j \<Rightarrow> Inr (xs[j := v]))"

text \<open>\<open>d.get(k, default)\<close> on a dict kept as an association list in insertion order.\<close>

definition dict_get :: "('k \<times> 'v) list \<Rightarrow> 'k \<Rightarrow> 'v \<Rightarrow> 'v" where
  "dict_get d k dflt = (case map_of d k of None \<Rightarrow> dflt | Some v \<Rightarrow> v)"

text \<open>\<open>random.choice(xs)\<close>: the draw is an argument; an empty sequence raises IndexError.\<close>

definition random_choice :: "nat \<Rightarrow> 'a list \<Rightarrow> py_error + 'a" where
  "random_choice k xs = (if xs = [] then Inl IndexError else Inr (xs ! (k mod length xs)))"

definition startswith :: "string \<Rightarrow> string \<Rightarrow> bool" where
  "startswith s p = (take (length p) s = p)"

section \<open>service.py\<close>

subsection \<open>Customer\<close>

record Customer =
  c_name :: string
  species :: string
  quirk :: "string option"
  patience :: rat
  max_patience :: rat
  tip_range :: "int list"
  desired_recipe :: "string option"
  is_visible :: bool
  reveal_timer :: rat

definition Customer_update :: "Customer \<Rightarrow> rat \<Rightarrow> (string \<times> rat) list \<Rightarrow> Customer" where
  "Customer_update c dt mods =
     (let patience_modifier = dict_get mods ''patience_decay'' 1;
          c1 = c\<lparr>patience := fl (patience c - fl (dt * patience_modifier))\<rparr>
      in if quirk c1 = Some ''invisible'' \<and> 0 < reveal_timer c1
         then (let c2 = c1\<lparr>reveal_timer := fl (reveal_timer c1 - dt)\<rparr>
               in if reveal_timer c2 \<le> 0 then c2\<lparr>is_visible := False\<rparr> else c2)
         else c1)"

definition reveal :: "Customer \<Rightarrow> rat \<Rightarrow> Customer" where
  "reveal c duration =
     (if quirk c = Some ''invisible'' then c\<lparr>is_visible := True, reveal_timer := duration\<rparr>
      else c)"

text \<open>
  \<open>correct_drink\<close> is whatever \<open>desired_recipe and desired_recipe.matches(...)\<close> evaluated
  to: \<open>None\<close> (Python's None, when the recipe is unknown) or a boolean. \<open>not correct_drink\<close>
  holds for None and for False. The product of the integer range and the ratio converts the
  integer to a float first, and \<open>int\<close> truncates the product; both can raise.
\<close>

definition calculate_tip :: "Customer \<Rightarrow> bool option \<Rightarrow> rat \<Rightarrow> py_error + int" where
  "calculate_tip c correct_drink remaining_patience_ratio =
     (if correct_drink \<noteq> Some True then Inr 0
      else ebind (py_index (tip_range c) 0) (\<lambda>base_tip.
           ebind (py_index (tip_range c) 1) (\<lambda>hi.
           ebind (py_index (tip_range c) 0) (\<lambda>lo.
           ebind (py_float (hi - lo)) (\<lambda>width.
           ebind (int_of_product width remaining_patience_ratio) (\<lambda>bonus.
             Inr (base_tip + bonus)))))))"

subsection \<open>Recipe and RecipeBook\<close>

record Recipe =
  r_id :: string
  r_name :: string
  steps :: "string list"
  difficulty :: int

definition matches :: "Recipe \<Rightarrow> string list \<Rightarrow> bool" where
  "matches r xs = (xs = steps r)"

record RecipeBook =
  recipes :: "(string \<times> Recipe) list"

definition RecipeBook_find :: "RecipeBook \<Rightarrow> string option \<Rightarrow> Recipe option" where
  "RecipeBook_find rb recipe_id = (case recipe_id of None \<Rightarrow> None | Some i \<Rightarrow> map_of (recipes rb) i)"

definition regular_recipes :: "RecipeBook \<Rightarrow> Recipe list" where
  "regular_recipes rb = filter (\<lambda>r. \<not> startswith (r_id r) ''banishing'') (map snd (recipes rb))"

definition get_random_recipe :: "nat \<Rightarrow> RecipeBook \<Rightarrow> py_error + Recipe" where
  "get_random_recipe k rb = random_choice k (regular_recipes rb)"

subsection \<open>CustomerQueue\<close>

record CustomerQueue =
  customers :: "Customer option list"
  max_size :: int

definition CustomerQueue_init :: "int \<Rightarrow> CustomerQueue" where
  "CustomerQueue_init n = \<lparr>customers = replicate (nat n) None, max_size = n\<rparr>"

fun add_customer_loop ::
  "Customer option list \<Rightarrow> Customer \<Rightarrow> nat list \<Rightarrow> py_error + (bool \<times> Customer option list)" where
  "add_customer_loop cs c [] = Inr (False, cs)"
| "add_customer_loop cs c (i # rest) =
     (if length cs \<le> i then Inl IndexError
      else if cs ! i = None then Inr (True, cs[i := Some c])
      else add_customer_loop cs c rest)"

definition add_customer :: "CustomerQueue \<Rightarrow> Customer \<Rightarrow> py_error + (bool \<times> CustomerQueue)" where
  "add_customer q c =
     ebind (add_customer_loop (customers q) c [0..<nat (max_size q)])
       (\<lambda>(b, cs). Inr (b, q\<lparr>customers := cs\<rparr>))"

definition remove_customer ::
  "CustomerQueue \<Rightarrow> int \<Rightarrow> py_error + (Customer option \<times> CustomerQueue)" where
  "remove_customer q index =
     (if 0 \<le> index \<and> index < max_size q
      then ebind (py_index (customers q) index) (\<lambda>customer.
           ebind (py_setitem (customers q) index None) (\<lambda>cs.
             Inr (customer, q\<lparr>customers := cs\<rparr>)))
      else Inr (None, q))"

definition get_active_customers :: "CustomerQueue \<Rightarrow> Customer list" where
  "get_active_customers q = List.map_filter id (customers q)"

fun queue_update_loop ::
  "rat \<Rightarrow> (string \<times> rat) list \<Rightarrow> nat list \<Rightarrow> Customer option list \<Rightarrow> Customer list
     \<Rightarrow> py_error + (Customer list \<times> Customer option list)" where
  "queue_update_loop dt mods [] cs left_customers = Inr (left_customers, cs)"
| "queue_update_loop dt mods (i # rest) cs left_customers =
     (if length cs \<le> i then Inl IndexError
      else case cs ! i of
             None \<Rightarrow> queue_update_loop dt mods rest cs left_customers
           | Some c \<Rightarrow>
               (let c' = Customer_update c dt mods
                in if patience c' \<le> 0
                   then queue_update_loop dt mods rest (cs[i := None]) (left_customers @ [c'])
                   else queue_update_loop dt mods rest (cs[i := Some c']) left_customers))"

definition CustomerQueue_update ::
  "CustomerQueue \<Rightarrow> rat \<Rightarrow> (string \<times> rat) list \<Rightarrow> py_error + (Customer list \<times> CustomerQueue)" where
  "CustomerQueue_update q dt mods =
     ebind (queue_update_loop dt mods [0..<nat (max_size q)] (customers q) [])
       (\<lambda>(left_customers, cs). Inr (left_customers, q\<lparr>customers := cs\<rparr>))"

subsection \<open>BrewingStation\<close>

record BrewingStation =
  current_recipe :: "string list"
  available_ingredients :: "string list"
  brew_time_per_step :: rat
  current_brew_time :: rat
  is_brewing :: bool
  selected_customer_index :: "int option"

definition BrewingStation_init :: BrewingStation where
  "BrewingStation_init =
    \<lparr>current_recipe = [],
     available_ingredients =
       [''beans'', ''milk'', ''stardust'', ''meteor_shot'', ''moonlight'', ''sigil''],
     brew_time_per_step = fl (12 / 10), current_brew_time = 0, is_brewing = False,
     selected_customer_index = None\<rparr>"

definition start_order :: "BrewingStation \<Rightarrow> int \<Rightarrow> BrewingStation" where
  "start_order bs customer_index =
     bs\<lparr>selected_customer_index := Some customer_index, current_recipe := [],
        is_brewing := True, current_brew_time := 0\<rparr>"

definition add_ingredient :: "BrewingStation \<Rightarrow> string \<Rightarrow> bool \<times> BrewingStation" where
  "add_ingredient bs ingredient =
     (if ingredient \<in> set (available_ingredients bs) \<and> length (current_recipe bs) < 3
      then (True, bs\<lparr>current_recipe := current_recipe bs @ [ingredient], current_brew_time := 0\<rparr>)
      else (False, bs))"

definition BrewingStation_update ::
  "BrewingStation \<Rightarrow> rat \<Rightarrow> (string \<times> rat) list \<Rightarrow> bool \<times> BrewingStation" where
  "BrewingStation_update bs dt mods =
     (if is_brewing bs \<and> current_recipe bs \<noteq> []
      then (let brew_speed = dict_get mods ''brew_speed'' 1;
                bs1 = bs\<lparr>current_brew_time := fl (current_brew_time bs + fl (dt * brew_speed))\<rparr>
            in if brew_time_per_step bs1 \<le> current_brew_time bs1 then (True, bs1)
               else (False, bs1))
      else (False, bs))"

definition complete_order :: "BrewingStation \<Rightarrow> string list \<times> BrewingStation" where
  "complete_order bs =
     (current_recipe bs,
      bs\<lparr>current_recipe := [], is_brewing := False, selected_customer_index := None\<rparr>)"

definition cancel_order :: "BrewingStation \<Rightarrow> BrewingStation" where
  "cancel_order bs = bs\<lparr>current_recipe := [], is_brewing := False, selected_customer_index := None\<rparr>"

subsection \<open>ServiceController\<close>

text \<open>
  A customer template is one entry of the parsed customer table; \<open>t_patience\<close> is the number
  \<open>template['patience']\<close>, which \<open>float(...)\<close> rounds to binary64.
\<close>

record template =
  t_name :: string
  t_species :: string
  t_quirk :: "string option"
  t_patience :: rat
  t_tip :: "int list"

text \<open>
  The random draws of one call are its arguments: the draw of \<open>random.choice\<close> over the
  template pool, the draw of \<open>random.choice\<close> over the regular recipes, and the value of
  \<open>random.uniform(-2, 2)\<close>.
\<close>

record draws =
  d_template :: nat
  d_recipe :: nat
  d_jitter :: rat

record ServiceController =
  recipe_book :: RecipeBook
  customer_queue :: CustomerQueue
  brewing_station :: BrewingStation
  customer_pool :: "template list"
  day_time :: rat
  time_remaining :: rat
  customers_served :: int
  total_tips :: int
  spawn_timer :: rat
  spawn_interval :: rat
  cafe_heat :: rat
  active :: bool

record serve_result =
  success :: "bool option"
  tip :: int
  message :: string

record events =
  customers_left :: "Customer list"
  day_ended :: bool

definition ServiceController_init :: "RecipeBook \<Rightarrow> template list \<Rightarrow> ServiceController" where
  "ServiceController_init rb pool =
    \<lparr>recipe_book = rb, customer_queue = CustomerQueue_init 5,
     brewing_station = BrewingStation_init, customer_pool = pool,
     day_time = 90, time_remaining = 90, customers_served = 0, total_tips = 0,
     spawn_timer = 0, spawn_interval = 12, cafe_heat = 0, active = False\<rparr>"

text \<open>
  The customer that \<open>spawn_customer\<close> builds from the drawn template and the drawn recipe:
  the \<open>Customer(...)\<close> call, then the ghost is made invisible.
\<close>

definition new_customer :: "template \<Rightarrow> Recipe \<Rightarrow> Customer" where
  "new_customer t r =
     (let customer =
            \<lparr>c_name = t_name t, species = t_species t, quirk = t_quirk t,
             patience = fl (t_patience t), max_patience = fl (t_patience t),
             tip_range = t_tip t, desired_recipe = Some (r_id r),
             is_visible = True, reveal_timer = 0\<rparr>
      in if quirk customer = Some ''invisible'' then customer\<lparr>is_visible := False\<rparr>
         else customer)"

definition spawn_customer :: "ServiceController \<Rightarrow> draws \<Rightarrow> py_error + (bool \<times> ServiceController)" where
  "spawn_customer sc dr =
     (if customer_pool sc = [] \<or> \<not> active sc then Inr (False, sc)
      else ebind (random_choice (d_template dr) (customer_pool sc)) (\<lambda>t.
           ebind (get_random_recipe (d_recipe dr) (recipe_book sc)) (\<lambda>r.
           ebind (add_customer (customer_queue sc) (new_customer t r))
             (\<lambda>(b, q). Inr (b, sc\<lparr>customer_queue := q\<rparr>)))))"

definition start_day :: "ServiceController \<Rightarrow> int \<Rightarrow> draws \<Rightarrow> py_error + ServiceController" where
  "start_day sc day dr =
     (let sc1 = sc\<lparr>time_remaining := day_time sc, customers_served := 0, total_tips := 0,
                    spawn_timer := 2, cafe_heat := 0, active := True\<rparr>;
          sc2 = sc1\<lparr>customer_queue :=
                       (customer_queue sc1)\<lparr>customers :=
                          replicate (nat (max_size (customer_queue sc1))) None\<rparr>\<rparr>
      in ebind (spawn_customer sc2 dr) (\<lambda>(b, sc3). Inr sc3))"

definition has_fire_elemental :: "Customer option list \<Rightarrow> bool" where
  "has_fire_elemental cs = (\<exists>c \<in> set cs. case c of None \<Rightarrow> False
                                             | Some x \<Rightarrow> species x = ''fire_elemental'')"

definition ServiceController_update ::
  "ServiceController \<Rightarrow> rat \<Rightarrow> (string \<times> rat) list \<Rightarrow> draws
     \<Rightarrow> py_error + (events \<times> ServiceController)" where
  "ServiceController_update sc dt mods dr =
     (if \<not> active sc then Inr (\<lparr>customers_left = [], day_ended = False\<rparr>, sc)
      else
        let sc1 = sc\<lparr>time_remaining := fl (time_remaining sc - dt)\<rparr>;
            ended = (time_remaining sc1 \<le> 0);
            sc2 = (if ended then sc1\<lparr>time_remaining := 0, active := False\<rparr> else sc1);
            sc3 = sc2\<lparr>spawn_timer := fl (spawn_timer sc2 - dt)\<rparr>
        in ebind
             (if spawn_timer sc3 \<le> 0 \<and>
                 customers_served sc3 + int (length (get_active_customers (customer_queue sc3))) < 8
              then ebind (spawn_customer sc3 dr) (\<lambda>(b, sc4).
                     Inr (if b then sc4\<lparr>spawn_timer := fl (spawn_interval sc4 + d_jitter dr)\<rparr>
                          else sc4))
              else Inr sc3)
             (\<lambda>sc5.
           ebind (CustomerQueue_update (customer_queue sc5) dt mods) (\<lambda>(left_customers, q).
             let sc6 = sc5\<lparr>customer_queue := q\<rparr>;
                 sc7 = sc6\<lparr>brewing_station :=
                              snd (BrewingStation_update (brewing_station sc6) dt mods)\<rparr>;
                 sc8 = (if has_fire_elemental (customers (customer_queue sc7))
                        then sc7\<lparr>cafe_heat := min 100 (fl (cafe_heat sc7 + fl (dt * 10)))\<rparr>
                        else sc7\<lparr>cafe_heat := max 0 (fl (cafe_heat sc7 - fl (dt * 5)))\<rparr>)
             in Inr (\<lparr>customers_left = left_customers, day_ended = ended\<rparr>, sc8))))"

definition serve_drink ::
  "ServiceController \<Rightarrow> string list \<Rightarrow> py_error + (serve_result \<times> ServiceController)" where
  "serve_drink sc recipe_steps =
     (case selected_customer_index (brewing_station sc) of
        None \<Rightarrow> Inr (\<lparr>success = Some False, tip = 0, message = []\<rparr>, sc)
      | Some customer_index \<Rightarrow>
          ebind (py_index (customers (customer_queue sc)) customer_index) (\<lambda>slot.
            case slot of
              None \<Rightarrow> Inr (\<lparr>success = Some False, tip = 0, message = []\<rparr>, sc)
            | Some customer \<Rightarrow>
                let desired = RecipeBook_find (recipe_book sc) (desired_recipe customer);
                    correct = (case desired of None \<Rightarrow> None
                               | Some r \<Rightarrow> Some (matches r recipe_steps))
                in if max_patience customer = 0 then Inl ZeroDivisionError
                   else
                     let patience_ratio = fl (patience customer / max_patience customer)
                     in ebind (calculate_tip customer correct patience_ratio) (\<lambda>tp.
                          let sc1 = sc\<lparr>customers_served := customers_served sc + 1,
                                         total_tips := total_tips sc + tp\<rparr>
                          in ebind (remove_customer (customer_queue sc1) customer_index)
                               (\<lambda>(removed, q).
                                  Inr (\<lparr>success = correct, tip = tp,
                                        message =
                                          (case desired of
                                             Some r \<Rightarrow>
                                               if matches r recipe_steps
                                               then c_name customer @ '' loved their '' @ r_name r @ ''!''
                                               else c_name customer @ '' didn'' @ [CHR 0x27] @
                                                    ''t get what they ordered...''
                                           | None \<Rightarrow>
                                               c_name customer @ '' didn'' @ [CHR 0x27] @
                                               ''t get what they ordered...'')\<rparr>,
                                       sc1\<lparr>customer_queue := q\<rparr>)))))"

definition ring_bell :: "ServiceController \<Rightarrow> ServiceController" where
  "ring_bell sc =
     sc\<lparr>customer_queue :=
          (customer_queue sc)\<lparr>customers :=
             map (\<lambda>slot. case slot of None \<Rightarrow> None
                         | Some c \<Rightarrow> if quirk c = Some ''invisible'' then Some (reveal c 2)
                                     else Some c)
                 (customers (customer_queue sc))\<rparr>\<rparr>"

section \<open>upgrades.py\<close>

record Upgrade =
  u_id :: string
  u_name :: string
  u_description :: string
  u_cost :: int
  u_effect_key :: string
  u_effect_value :: rat
  u_icon :: "string option"

record UpgradeManager =
  available_upgrades :: "(string \<times> Upgrade) list"
  purchased_upgrades :: "string list"
  modifiers :: "(string \<times> rat) list"

definition init_upgrades :: "(string \<times> Upgrade) list" where
  "init_upgrades =
    [(''enchanted_grinder'',
      \<lparr>u_id = ''enchanted_grinder'', u_name = ''Enchanted Grinder'',
       u_description = ''Reduces brew time by 20%'', u_cost = 15,
       u_effect_key = ''brew_speed'', u_effect_value = fl (12 / 10),
       u_icon = Some ''upgrade_grinder''\<rparr>),
     (''calming_fern'',
      \<lparr>u_id = ''calming_fern'', u_name = ''Calming Fern'',
       u_description = ''Slows patience decay by 15%'', u_cost = 20,
       u_effect_key = ''patience_decay'', u_effect_value = fl (85 / 100),
       u_icon = Some ''upgrade_fern''\<rparr>)]"

definition UpgradeManager_init :: UpgradeManager where
  "UpgradeManager_init =
    \<lparr>available_upgrades = init_upgrades, purchased_upgrades = [],
     modifiers = [(''brew_speed'', 1), (''patience_decay'', 1), (''tip_multiplier'', 1)]\<rparr>"

definition apply_upgrade :: "UpgradeManager \<Rightarrow> Upgrade \<Rightarrow> UpgradeManager" where
  "apply_upgrade um upgrade =
     (case map_of (modifiers um) (u_effect_key upgrade) of
        None \<Rightarrow> um
      | Some m \<Rightarrow>
          (if u_effect_key upgrade = ''patience_decay''
           then um\<lparr>modifiers := AList.update (u_effect_key upgrade)
                                   (fl (m * u_effect_value upgrade)) (modifiers um)\<rparr>
           else um\<lparr>modifiers := AList.update (u_effect_key upgrade)
                                   (fl (m * u_effect_value upgrade)) (modifiers um)\<rparr>))"

definition purchase :: "UpgradeManager \<Rightarrow> string \<Rightarrow> int \<Rightarrow> int option \<times> UpgradeManager" where
  "purchase um upgrade_id coins =
     (if upgrade_id \<in> set (purchased_upgrades um) then (None, um)
      else case map_of (available_upgrades um) upgrade_id of
             None \<Rightarrow> (None, um)
           | Some upgrade \<Rightarrow>
               if coins < u_cost upgrade then (None, um)
               else (Some (coins - u_cost upgrade),
                     apply_upgrade
                       (um\<lparr>purchased_upgrades := purchased_upgrades um @ [upgrade_id]\<rparr>)
                       upgrade))"

definition get_modifiers :: "UpgradeManager \<Rightarrow> (string \<times> rat) list" where
  "get_modifiers um = modifiers um"

section \<open>chaos.py\<close>

record PortalEvent =
  pe_active :: bool
  pe_resolved :: bool
  pe_timer :: rat
  rift_stability :: rat
  drain_rate :: rat
  pastries_lost :: int
  max_pastries_lost :: int

text \<open>
  The dictionaries returned by the event: \<open>{}\<close>, the \<open>portal_failed\<close> payload (with
  \<open>pastries_lost\<close>), the status snapshot (\<open>rift_stability\<close>, \<open>pastries_lost\<close>) and the
  \<open>portal_closed\<close> payload (\<open>bonus\<close> and the number of saved pastries its message prints).
\<close>

datatype portal_data =
    NoData
  | PortalFailed int
  | PortalStatus rat int
  | PortalClosed int int

definition PortalEvent_init :: PortalEvent where
  "PortalEvent_init =
    \<lparr>pe_active = False, pe_resolved = False, pe_timer = 0, rift_stability = 100,
     drain_rate = 5, pastries_lost = 0, max_pastries_lost = 10\<rparr>"

definition PortalEvent_start :: "PortalEvent \<Rightarrow> PortalEvent" where
  "PortalEvent_start ev =
     ev\<lparr>pe_active := True, pe_resolved := False, rift_stability := 100, pastries_lost := 0\<rparr>"

definition PortalEvent_update :: "PortalEvent \<Rightarrow> rat \<Rightarrow> portal_data \<times> PortalEvent" where
  "PortalEvent_update ev dt =
     (if \<not> pe_active ev \<or> pe_resolved ev then (NoData, ev)
      else
        let ev1 = ev\<lparr>rift_stability :=
                        max 0 (fl (rift_stability ev - fl (drain_rate ev * dt)))\<rparr>;
            ev2 = ev1\<lparr>pe_timer := fl (pe_timer ev1 + dt)\<rparr>;
            ev3 = (if 2 \<le> pe_timer ev2
                   then ev2\<lparr>pe_timer := 0, pastries_lost := pastries_lost ev2 + 1\<rparr>
                   else ev2)
        in if rift_stability ev3 \<le> 0 \<or> max_pastries_lost ev3 \<le> pastries_lost ev3
           then (PortalFailed (pastries_lost ev3),
                 ev3\<lparr>pe_active := False\<rparr>)
           else (PortalStatus (rift_stability ev3) (pastries_lost ev3), ev3))"

datatype payload = PList "string list" | POther

definition can_resolve :: "PortalEvent \<Rightarrow> string \<Rightarrow> payload \<Rightarrow> bool" where
  "can_resolve ev action data =
     (case data of
        POther \<Rightarrow> False
      | PList xs \<Rightarrow>
          if action \<noteq> ''serve_drink'' then False
          else xs = [''beans'', ''moonlight'', ''sigil''])"

definition PortalEvent_resolve :: "PortalEvent \<Rightarrow> portal_data \<times> PortalEvent" where
  "PortalEvent_resolve ev =
     (let ev1 = ev\<lparr>pe_resolved := True, pe_active := False\<rparr>;
          bonus = py_int (fl (rift_stability ev1 / 10))
      in (PortalClosed bonus (10 - pastries_lost ev1), ev1))"

record ChaosManager =
  current_event :: "PortalEvent option"
  event_triggered :: bool
  trigger_time :: rat

definition ChaosManager_init :: ChaosManager where
  "ChaosManager_init = \<lparr>current_event = None, event_triggered = False, trigger_time = 45\<rparr>"

definition ChaosManager_reset :: "ChaosManager \<Rightarrow> ChaosManager" where
  "ChaosManager_reset cm = cm\<lparr>current_event := None, event_triggered := False\<rparr>"

definition check_trigger :: "ChaosManager \<Rightarrow> rat \<Rightarrow> bool \<times> ChaosManager" where
  "check_trigger cm time_left =
     (if \<not> event_triggered cm \<and> time_left \<le> trigger_time cm
      then (True, cm\<lparr>event_triggered := True,
                      current_event := Some (PortalEvent_start PortalEvent_init)\<rparr>)
      else (False, cm))"

definition ChaosManager_update :: "ChaosManager \<Rightarrow> rat \<Rightarrow> portal_data \<times> ChaosManager" where
  "ChaosManager_update cm dt =
     (case current_event cm of
        None \<Rightarrow> (NoData, cm)
      | Some ev \<Rightarrow>
          if pe_active ev
          then (let (d, ev') = PortalEvent_update ev dt in (d, cm\<lparr>current_event := Some ev'\<rparr>))
          else (NoData, cm))"

definition try_resolve :: "ChaosManager \<Rightarrow> string \<Rightarrow> payload \<Rightarrow> portal_data option \<times> ChaosManager" where
  "try_resolve cm action data =
     (case current_event cm of
        None \<Rightarrow> (None, cm)
      | Some ev \<Rightarrow>
          if \<not> pe_active ev then (None, cm)
          else if can_resolve ev action data
          then (let (d, ev') = PortalEvent_resolve ev in (Some d, cm\<lparr>current_event := Some ev'\<rparr>))
          else (None, cm))"

section \<open>Call sequences of the host\<close>

text \<open>
  One day of the chaos manager as the host drives it: any interleaving of \<open>check_trigger\<close>,
  \<open>update\<close> and \<open>try_resolve\<close> calls. \<open>chaos_run\<close> returns the results of the
  \<open>check_trigger\<close> calls in order, \<open>check_args\<close> their arguments.
\<close>

datatype chaos_op = CheckTrigger rat | ChaosUpdate rat | TryResolve string payload

fun chaos_run :: "ChaosManager \<Rightarrow> chaos_op list \<Rightarrow> bool list \<times> ChaosManager" where
  "chaos_run cm [] = ([], cm)"
| "chaos_run cm (CheckTrigger t # ops) =
     (fst (check_trigger cm t) # fst (chaos_run (snd (check_trigger cm t)) ops),
      snd (chaos_run (snd (check_trigger cm t)) ops))"
| "chaos_run cm (ChaosUpdate dt # ops) = chaos_run (snd (ChaosManager_update cm dt)) ops"
| "chaos_run cm (TryResolve a d # ops) = chaos_run (snd (try_resolve cm a d)) ops"

fun check_args :: "chaos_op list \<Rightarrow> rat list" where
  "check_args [] = []"
| "check_args (CheckTrigger t # ops) = t # check_args ops"
| "check_args (ChaosUpdate dt # ops) = check_args ops"
| "check_args (TryResolve a d # ops) = check_args ops"

text \<open>
  A queue as its owner drives it: any sequence of \<open>add_customer\<close>, \<open>remove_customer\<close>
  and \<open>update\<close> calls; an exception ends the run. \<open>queue_wf\<close> is the invariant that
  \<open>__init__\<close> establishes: the slot array has \<open>max_size\<close> entries.
\<close>

datatype queue_op = QAdd Customer | QRemove int | QUpdate rat "(string \<times> rat) list"

fun queue_step :: "CustomerQueue \<Rightarrow> queue_op \<Rightarrow> py_error + CustomerQueue" where
  "queue_step q (QAdd c) = ebind (add_customer q c) (\<lambda>(b, q'). Inr q')"
| "queue_step q (QRemove i) = ebind (remove_customer q i) (\<lambda>(c, q'). Inr q')"
| "queue_step q (QUpdate dt mods) = ebind (CustomerQueue_update q dt mods) (\<lambda>(l, q'). Inr q')"

fun queue_run :: "CustomerQueue \<Rightarrow> queue_op list \<Rightarrow> py_error + CustomerQueue" where
  "queue_run q [] = Inr q"
| "queue_run q (op # ops) = ebind (queue_step q op) (\<lambda>q'. queue_run q' ops)"

definition queue_wf :: "CustomerQueue \<Rightarrow> bool" where
  "queue_wf q = (length (customers q) = nat (max_size q))"

text \<open>A customer for the concrete instances.\<close>

definition demo_customer :: Customer where
  "demo_customer =
    \<lparr>c_name = ''Zorp'', species = ''alien'', quirk = None, patience = 30, max_patience = 30,
     tip_range = [2, 5], desired_recipe = Some ''latte'', is_visible = True, reveal_timer = 0\<rparr>"

text \<open>A customer whose tip range is wider than binary64 counts exactly.\<close>

definition big_tipper :: Customer where
  "big_tipper = demo_customer\<lparr>tip_range := [0, 9007199254740993]\<rparr>"

text \<open>Recipe books for the concrete instances.\<close>

definition banishing_espresso :: Recipe where
  "banishing_espresso =
    \<lparr>r_id = ''banishing_espresso'', r_name = ''Banishing Espresso'',
     steps = [''beans'', ''moonlight'', ''sigil''], difficulty = 3\<rparr>"

definition latte :: Recipe where
  "latte = \<lparr>r_id = ''latte'', r_name = ''Cosmic Latte'',
            steps = [''beans'', ''milk'', ''stardust''], difficulty = 1\<rparr>"

definition demo_book :: RecipeBook where
  "demo_book = \<lparr>recipes = [(''latte'', latte), (''banishing_espresso'', banishing_espresso)]\<rparr>"

definition banishing_only_book :: RecipeBook where
  "banishing_only_book = \<lparr>recipes = [(''banishing_espresso'', banishing_espresso)]\<rparr>"

text \<open>
  A controller in the middle of a day: the given customer sits in slot 0 and the brewing station
  has been bound to that slot by \<open>start_order\<close>.
\<close>

definition serving_controller :: "Customer \<Rightarrow> ServiceController" where
  "serving_controller c =
     (ServiceController_init demo_book [])
       \<lparr>customer_queue := \<lparr>customers = [Some c, None, None, None, None], max_size = 5\<rparr>,
        brewing_station := start_order BrewingStation_init 0, active := True\<rparr>"

text \<open>
  A run of \<open>BrewingStation.update\<close> calls with nothing in between: \<open>brew_results\<close> lists
  what the calls return. \<open>brewing_beans\<close> is a station right after \<open>start_order(0)\<close> and
  \<open>add_ingredient("beans")\<close>.
\<close>

fun brew_results :: "BrewingStation \<Rightarrow> (rat \<times> (string \<times> rat) list) list \<Rightarrow> bool list" where
  "brew_results bs [] = []"
| "brew_results bs ((dt, mods) # ticks) =
     fst (BrewingStation_update bs dt mods)
       # brew_results (snd (BrewingStation_update bs dt mods)) ticks"

definition brewing_beans :: BrewingStation where
  "brewing_beans = snd (add_ingredient (start_order BrewingStation_init 0) ''beans'')"

text \<open>
  The public interface of the service controller: any sequence of its calls and of the calls on
  its brewing station. \<open>sc_run\<close> returns the customers of all \<open>customers_left\<close> lists, in
  order, and the final controller; an exception ends the run.
\<close>

datatype sc_op =
    OpStartDay int draws
  | OpUpdate rat "(string \<times> rat) list" draws
  | OpSpawn draws
  | OpServe "string list"
  | OpRingBell
  | OpStartOrder int
  | OpAddIngredient string
  | OpCompleteOrder
  | OpCancelOrder

fun sc_step :: "ServiceController \<Rightarrow> sc_op \<Rightarrow> py_error + (Customer list \<times> ServiceController)" where
  "sc_step sc (OpStartDay day dr) = ebind (start_day sc day dr) (\<lambda>sc'. Inr ([], sc'))"
| "sc_step sc (OpUpdate dt mods dr) =
     ebind (ServiceController_update sc dt mods dr) (\<lambda>(ev, sc'). Inr (customers_left ev, sc'))"
| "sc_step sc (OpSpawn dr) = ebind (spawn_customer sc dr) (\<lambda>(b, sc'). Inr ([], sc'))"
| "sc_step sc (OpServe xs) = ebind (serve_drink sc xs) (\<lambda>(res, sc'). Inr ([], sc'))"
| "sc_step sc OpRingBell = Inr ([], ring_bell sc)"
| "sc_step sc (OpStartOrder i) =
     Inr ([], sc\<lparr>brewing_station := start_order (brewing_station sc) i\<rparr>)"
| "sc_step sc (OpAddIngredient x) =
     Inr ([], sc\<lparr>brewing_station := snd (add_ingredient (brewing_station sc) x)\<rparr>)"
| "sc_step sc OpCompleteOrder =
     Inr ([], sc\<lparr>brewing_station := snd (complete_order (brewing_station sc))\<rparr>)"
| "sc_step sc OpCancelOrder =
     Inr ([], sc\<lparr>brewing_station := cancel_order (brewing_station sc)\<rparr>)"

fun sc_run :: "ServiceController \<Rightarrow> sc_op list \<Rightarrow> py_error + (Customer list \<times> ServiceController)" where
  "sc_run sc [] = Inr ([], sc)"
| "sc_run sc (op # ops) =
     ebind (sc_step sc op) (\<lambda>(l, sc').
     ebind (sc_run sc' ops) (\<lambda>(ls, sc''). Inr (l @ ls, sc'')))"

text \<open>
  The calls the invariant is proved for: an \<open>update\<close> with \<open>dt \<ge> 0\<close> and a non-negative
  \<open>patience_decay\<close> modifier (absent, it is 1.0); every other call.
\<close>

fun op_ok :: "sc_op \<Rightarrow> bool" where
  "op_ok (OpUpdate dt mods dr) = (0 \<le> dt \<and> 0 \<le> dict_get mods ''patience_decay'' 1)"
| "op_ok _ = True"

text \<open>
  What holds of a customer in a slot (its patience is a binary64 number between 0 and
  \<open>max_patience\<close>) and of a customer that has left.
\<close>

definition cust_ok :: "Customer \<Rightarrow> bool" where
  "cust_ok c = (fl (patience c) = patience c \<and> 0 \<le> patience c \<and> patience c \<le> max_patience c)"

definition left_ok :: "Customer \<Rightarrow> bool" where
  "left_ok c = (patience c \<le> 0 \<and> 0 \<le> max_patience c)"

definition slots_ok :: "Customer option list \<Rightarrow> bool" where
  "slots_ok cs = (\<forall>c. Some c \<in> set cs \<longrightarrow> cust_ok c)"

definition sc_inv :: "ServiceController \<Rightarrow> bool" where
  "sc_inv sc = (slots_ok (customers (customer_queue sc)) \<and>
                (\<forall>t \<in> set (customer_pool sc). 0 \<le> t_patience t))"

text \<open>Templates and draws for the concrete instances.\<close>

definition hasty :: template where
  "hasty = \<lparr>t_name = ''Blip'', t_species = ''alien'', t_quirk = None, t_patience = 1,
            t_tip = [1, 3]\<rparr>"

definition grumpy :: template where
  "grumpy = hasty\<lparr>t_patience := - 1\<rparr>"

definition d0 :: draws where
  "d0 = \<lparr>d_template = 0, d_recipe = 0, d_jitter = 0\<rparr>"

text \<open>
  A customer whose tip range is too wide to convert to a float, a controller whose station was
  bound by \<open>start_order(-1)\<close> to the customer in the last slot, and two \<open>serve_drink\<close>
  calls in a row with the same sequence.
\<close>

definition huge_tipper :: Customer where
  "huge_tipper = demo_customer\<lparr>tip_range := [0, 2 ^ 1024]\<rparr>"

definition serving_last :: "Customer \<Rightarrow> ServiceController" where
  "serving_last c =
     (ServiceController_init demo_book [])
       \<lparr>customer_queue := \<lparr>customers = [None, None, None, None, Some c], max_size = 5\<rparr>,
        brewing_station := start_order BrewingStation_init (- 1), active := True\<rparr>"

definition serve_twice ::
  "ServiceController \<Rightarrow> string list
     \<Rightarrow> py_error + (serve_result \<times> serve_result \<times> ServiceController)" where
  "serve_twice sc xs =
     ebind (serve_drink sc xs) (\<lambda>(r1, sc1).
     ebind (serve_drink sc1 xs) (\<lambda>(r2, sc2). Inr (r1, r2, sc2)))"







section \<open>Properties of the upgrade manager\<close>

lemma apply_upgrade_purchased:
  "purchased_upgrades (apply_upgrade um u) = purchased_upgrades um"
  by (simp add: apply_upgrade_def split: option.splits)

text \<open>
  C5. \<open>purchase\<close> returns nothing exactly when the id is already purchased, is not in the
  catalogue, or the coins are fewer than the cost. Whenever it returns nothing the whole manager
  (purchased list and modifiers) is unchanged. On success it returns \<open>coins - cost\<close>, and
  purchasing the same id again, with any coins, returns nothing and leaves the manager as it was
  after the first purchase.
\<close>

theorem C5_purchase:
  "(fst (purchase um i coins) = None \<longleftrightarrow>
      (i \<in> set (purchased_upgrades um) \<or> map_of (available_upgrades um) i = None \<or>
       (\<exists>u. map_of (available_upgrades um) i = Some u \<and> coins < u_cost u)))
   \<and> (fst (purchase um i coins) = None \<longrightarrow> snd (purchase um i coins) = um)
   \<and> (\<forall>r. fst (purchase um i coins) = Some r \<longrightarrow>
         (\<exists>u. map_of (available_upgrades um) i = Some u \<and> r = coins - u_cost u) \<and>
         purchase (snd (purchase um i coins)) i coins' = (None, snd (purchase um i coins)))"
  by (auto simp: purchase_def apply_upgrade_purchased split: option.splits)

theorem C5_purchase_witness:
  "fst (purchase UpgradeManager_init ''enchanted_grinder'' 20) = Some 5
   \<and> purchase (snd (purchase UpgradeManager_init ''enchanted_grinder'' 20)) ''enchanted_grinder'' 100
       = (None, snd (purchase UpgradeManager_init ''enchanted_grinder'' 20))
   \<and> fst (purchase UpgradeManager_init ''calming_fern'' 19) = None
   \<and> snd (purchase UpgradeManager_init ''calming_fern'' 19) = UpgradeManager_init"
  using C5_purchase [of UpgradeManager_init "''enchanted_grinder''" 20 100]
        C5_purchase [of UpgradeManager_init "''calming_fern''" 19 0]
  by (simp add: purchase_def UpgradeManager_init_def init_upgrades_def)

section \<open>Properties of the chaos manager\<close>

lemma ChaosManager_update_frame:
  "event_triggered (snd (ChaosManager_update cm dt)) = event_triggered cm"
  "trigger_time (snd (ChaosManager_update cm dt)) = trigger_time cm"
  by (simp_all add: ChaosManager_update_def split: option.splits prod.splits)

lemma try_resolve_frame:
  "event_triggered (snd (try_resolve cm a d)) = event_triggered cm"
  "trigger_time (snd (try_resolve cm a d)) = trigger_time cm"
  by (simp_all add: try_resolve_def split: option.splits prod.splits)

lemma check_trigger_frame:
  "trigger_time (snd (check_trigger cm t)) = trigger_time cm"
  "event_triggered (snd (check_trigger cm t)) = (event_triggered cm \<or> t \<le> trigger_time cm)"
  "fst (check_trigger cm t) = (\<not> event_triggered cm \<and> t \<le> trigger_time cm)"
  by (auto simp: check_trigger_def)

lemma chaos_run_length: "length (fst (chaos_run cm ops)) = length (check_args ops)"
  by (induction cm ops rule: chaos_run.induct) auto

lemma chaos_run_triggered:
  "event_triggered cm \<Longrightarrow> fst (chaos_run cm ops) = replicate (length (check_args ops)) False"
  by (induction cm ops rule: chaos_run.induct)
     (simp_all add: ChaosManager_update_frame try_resolve_frame check_trigger_frame)

lemma chaos_run_nth:
  "i < length (check_args ops) \<Longrightarrow>
   fst (chaos_run cm ops) ! i =
     (\<not> event_triggered cm \<and> check_args ops ! i \<le> trigger_time cm \<and>
      (\<forall>j<i. \<not> check_args ops ! j \<le> trigger_time cm))"
proof (induction cm ops arbitrary: i rule: chaos_run.induct)
  case (1 cm)
  then show ?case by simp
next
  case (2 cm t ops)
  show ?case
  proof (cases i)
    case 0
    then show ?thesis by (simp add: check_trigger_frame)
  next
    case (Suc k)
    have k: "k < length (check_args ops)" using Suc "2.prems" by simp
    have all: "(\<forall>j<Suc k. \<not> (t # check_args ops) ! j \<le> trigger_time cm) =
               (\<not> t \<le> trigger_time cm \<and> (\<forall>j<k. \<not> check_args ops ! j \<le> trigger_time cm))"
      by (auto simp: less_Suc_eq_0_disj)
    show ?thesis
      using "2.IH" [OF k] Suc by (auto simp: all check_trigger_frame)
  qed
next
  case (3 cm dt ops)
  then show ?case by (simp add: ChaosManager_update_frame)
next
  case (4 cm a d ops)
  then show ?case by (simp add: try_resolve_frame)
qed

lemma chaos_run_once: "length (filter id (fst (chaos_run cm ops))) \<le> 1"
proof (induction cm ops rule: chaos_run.induct)
  case (2 cm t ops)
  show ?case
  proof (cases "fst (check_trigger cm t)")
    case True
    then have "event_triggered (snd (check_trigger cm t))" by (simp add: check_trigger_frame)
    then show ?thesis by (simp add: chaos_run_triggered)
  next
    case False
    then show ?thesis using "2.IH" by simp
  qed
qed simp_all

text \<open>
  C7. After \<open>reset\<close>, in any sequence of \<open>check_trigger\<close>, \<open>update\<close> and
  \<open>try_resolve\<close> calls, \<open>check_trigger\<close> returns true at most once: exactly on the first
  call whose argument is at most 45. That call stores a freshly started (active) PortalEvent.
  Once the event is triggered it stays triggered, and every later \<open>check_trigger\<close> returns
  false and leaves the manager unchanged, whatever its argument.
\<close>

theorem C7_check_trigger_once:
  assumes "trigger_time cm = 45"
  shows "length (filter id (fst (chaos_run (ChaosManager_reset cm) ops))) \<le> 1
    \<and> (\<forall>i<length (check_args ops).
          fst (chaos_run (ChaosManager_reset cm) ops) ! i =
            (check_args ops ! i \<le> 45 \<and> (\<forall>j<i. \<not> check_args ops ! j \<le> 45)))
    \<and> (\<forall>t. t \<le> 45 \<longrightarrow>
          check_trigger (ChaosManager_reset cm) t =
            (True, (ChaosManager_reset cm)\<lparr>event_triggered := True,
                     current_event := Some (PortalEvent_start PortalEvent_init)\<rparr>)
          \<and> pe_active (PortalEvent_start PortalEvent_init))
    \<and> (\<forall>cm' t. event_triggered cm' \<longrightarrow> check_trigger cm' t = (False, cm'))
    \<and> (\<forall>cm' dt. event_triggered cm' \<longrightarrow> event_triggered (snd (ChaosManager_update cm' dt)))
    \<and> (\<forall>cm' a d. event_triggered cm' \<longrightarrow> event_triggered (snd (try_resolve cm' a d)))"
proof -
  have r: "\<not> event_triggered (ChaosManager_reset cm)" "trigger_time (ChaosManager_reset cm) = 45"
    using assms by (simp_all add: ChaosManager_reset_def)
  have a: "length (filter id (fst (chaos_run (ChaosManager_reset cm) ops))) \<le> 1"
    by (rule chaos_run_once)
  have b: "\<forall>i<length (check_args ops).
          fst (chaos_run (ChaosManager_reset cm) ops) ! i =
            (check_args ops ! i \<le> 45 \<and> (\<forall>j<i. \<not> check_args ops ! j \<le> 45))"
    using r by (simp add: chaos_run_nth)
  have c: "\<forall>t. t \<le> 45 \<longrightarrow>
          check_trigger (ChaosManager_reset cm) t =
            (True, (ChaosManager_reset cm)\<lparr>event_triggered := True,
                     current_event := Some (PortalEvent_start PortalEvent_init)\<rparr>)
          \<and> pe_active (PortalEvent_start PortalEvent_init)"
    using r by (simp add: check_trigger_def PortalEvent_start_def)
  have d: "\<forall>cm' t. event_triggered cm' \<longrightarrow> check_trigger cm' t = (False, cm')"
    by (simp add: check_trigger_def)
  show ?thesis using a b c d by (simp add: ChaosManager_update_frame try_resolve_frame)
qed

theorem C7_check_trigger_once_witness:
  "trigger_time ChaosManager_init = 45
   \<and> fst (chaos_run (ChaosManager_reset ChaosManager_init)
            [CheckTrigger 60, ChaosUpdate 1, CheckTrigger 45, ChaosUpdate 1, CheckTrigger 30,
             CheckTrigger 50]) = [False, True, False, False]
   \<and> event_triggered (snd (check_trigger (ChaosManager_reset ChaosManager_init) 45))
   \<and> check_trigger (snd (check_trigger (ChaosManager_reset ChaosManager_init) 45)) 30
       = (False, snd (check_trigger (ChaosManager_reset ChaosManager_init) 45))"
  using C7_check_trigger_once [of ChaosManager_init
          "[CheckTrigger 60, ChaosUpdate 1, CheckTrigger 45, ChaosUpdate 1, CheckTrigger 30,
            CheckTrigger 50]"]
  by (simp add: ChaosManager_init_def ChaosManager_reset_def check_trigger_def
        ChaosManager_update_frame)

section \<open>Properties of the customer queue\<close>

lemma ebind_simps [simp]:
  "ebind (Inl e) f = Inl e"
  "ebind (Inr x) f = f x"
  by (simp_all add: ebind_def)

lemma add_customer_loop_total:
  "\<forall>i \<in> set idx. i < length cs \<Longrightarrow>
   \<exists>b cs'. add_customer_loop cs c idx = Inr (b, cs') \<and> length cs' = length cs"
  by (induction idx) auto

lemma add_customer_loop_full:
  "\<forall>i \<in> set idx. i < length cs \<Longrightarrow> None \<notin> set cs \<Longrightarrow>
   add_customer_loop cs c idx = Inr (False, cs)"
  by (induction idx) (auto simp: in_set_conv_nth)

lemma add_customer_wf:
  assumes "queue_wf q"
  shows "\<exists>b q'. add_customer q c = Inr (b, q') \<and> queue_wf q' \<and> max_size q' = max_size q"
proof -
  have "\<forall>i \<in> set [0..<nat (max_size q)]. i < length (customers q)"
    using assms by (simp add: queue_wf_def)
  from add_customer_loop_total [OF this, of c] obtain b cs' where
    "add_customer_loop (customers q) c [0..<nat (max_size q)] = Inr (b, cs')"
    "length cs' = length (customers q)" by blast
  then show ?thesis using assms by (simp add: add_customer_def queue_wf_def)
qed

lemma add_customer_full:
  assumes "queue_wf q" "None \<notin> set (customers q)"
  shows "add_customer q c = Inr (False, q)"
proof -
  have "\<forall>i \<in> set [0..<nat (max_size q)]. i < length (customers q)"
    using assms by (simp add: queue_wf_def)
  from add_customer_loop_full [OF this assms(2), of c]
  show ?thesis by (simp add: add_customer_def)
qed

lemma py_norm_inrange: "0 \<le> i \<Longrightarrow> i < int n \<Longrightarrow> py_norm n i = Some (nat i)"
  by (simp add: py_norm_def)

lemma remove_customer_wf:
  assumes "queue_wf q"
  shows "\<exists>c q'. remove_customer q i = Inr (c, q') \<and> queue_wf q' \<and> max_size q' = max_size q"
proof (cases "0 \<le> i \<and> i < max_size q")
  case True
  then have "py_norm (length (customers q)) i = Some (nat i)"
    using assms by (simp add: py_norm_inrange queue_wf_def)
  then show ?thesis using True assms
    by (simp add: remove_customer_def py_index_def py_setitem_def queue_wf_def)
next
  case False
  then show ?thesis using assms by (auto simp: remove_customer_def)
qed

lemma queue_update_loop_total:
  "\<forall>i \<in> set idx. i < length cs \<Longrightarrow>
   \<exists>l cs'. queue_update_loop dt mods idx cs left = Inr (l, cs') \<and> length cs' = length cs"
proof (induction idx arbitrary: cs left)
  case Nil
  then show ?case by simp
next
  case (Cons i idx)
  then have i: "i < length cs" and rest: "\<forall>j \<in> set idx. j < length cs" by auto
  show ?case
  proof (cases "cs ! i")
    case None
    then show ?thesis using Cons.IH [OF rest] i by simp
  next
    case (Some c)
    let ?c = "Customer_update c dt mods"
    show ?thesis
    proof (cases "patience ?c \<le> 0")
      case True
      have "\<forall>j \<in> set idx. j < length (cs[i := None])" using rest by simp
      from Cons.IH [OF this, of "left @ [?c]"] show ?thesis using Some i True by (simp add: Let_def)
    next
      case False
      have "\<forall>j \<in> set idx. j < length (cs[i := Some ?c])" using rest by simp
      from Cons.IH [OF this, of left] show ?thesis using Some i False by (simp add: Let_def)
    qed
  qed
qed

lemma CustomerQueue_update_wf:
  assumes "queue_wf q"
  shows "\<exists>l q'. CustomerQueue_update q dt mods = Inr (l, q') \<and> queue_wf q' \<and> max_size q' = max_size q"
proof -
  have "\<forall>i \<in> set [0..<nat (max_size q)]. i < length (customers q)"
    using assms by (simp add: queue_wf_def)
  from queue_update_loop_total [OF this, of dt mods "[]"] obtain l cs' where
    "queue_update_loop dt mods [0..<nat (max_size q)] (customers q) [] = Inr (l, cs')"
    "length cs' = length (customers q)" by blast
  then show ?thesis using assms by (simp add: CustomerQueue_update_def queue_wf_def)
qed

lemma queue_step_wf:
  assumes "queue_wf q"
  shows "\<exists>q'. queue_step q op = Inr q' \<and> queue_wf q' \<and> max_size q' = max_size q"
proof (cases op)
  case (QAdd c)
  then show ?thesis using add_customer_wf [OF assms, of c] by auto
next
  case (QRemove i)
  then show ?thesis using remove_customer_wf [OF assms, of i] by auto
next
  case (QUpdate dt mods)
  then show ?thesis using CustomerQueue_update_wf [OF assms, of dt mods] by auto
qed

lemma queue_run_wf:
  "queue_wf q \<Longrightarrow> \<exists>q'. queue_run q ops = Inr q' \<and> queue_wf q' \<and> max_size q' = max_size q"
proof (induction ops arbitrary: q)
  case Nil
  then show ?case by simp
next
  case (Cons op ops)
  from queue_step_wf [OF Cons.prems, of op] obtain q1 where
    q1: "queue_step q op = Inr q1" "queue_wf q1" "max_size q1 = max_size q" by blast
  from Cons.IH [OF q1(2)] show ?case using q1 by auto
qed

lemma CustomerQueue_init_wf: "queue_wf (CustomerQueue_init n)" "max_size (CustomerQueue_init n) = n"
  by (simp_all add: queue_wf_def CustomerQueue_init_def)

lemma active_le_length: "length (get_active_customers q) \<le> length (customers q)"
  by (simp add: get_active_customers_def map_filter_def)

text \<open>
  C9. Starting from a fresh queue of capacity \<open>n\<close>, no sequence of \<open>add_customer\<close>,
  \<open>remove_customer\<close> and \<open>update\<close> calls raises, the slot array keeps its \<open>n\<close> slots, and
  the queue never holds more than \<open>n\<close> customers. \<open>add_customer\<close> on a full queue (every one
  of its \<open>max_size\<close> slots occupied) returns false and leaves the queue unchanged.
\<close>

theorem C9_queue_capacity:
  "(\<exists>q. queue_run (CustomerQueue_init n) ops = Inr q \<and> max_size q = n \<and>
         length (customers q) = nat n \<and> length (get_active_customers q) \<le> nat n)
   \<and> (\<forall>q c. length (customers q) = nat (max_size q) \<and> None \<notin> set (customers q) \<longrightarrow>
          add_customer q c = Inr (False, q))"
proof -
  from queue_run_wf [OF CustomerQueue_init_wf(1), of n ops] obtain q where
    q: "queue_run (CustomerQueue_init n) ops = Inr q" "queue_wf q" "max_size q = n"
    by (auto simp: CustomerQueue_init_wf)
  have "length (get_active_customers q) \<le> nat n"
    using active_le_length [of q] q by (simp add: queue_wf_def)
  then have a: "\<exists>q. queue_run (CustomerQueue_init n) ops = Inr q \<and> max_size q = n \<and>
         length (customers q) = nat n \<and> length (get_active_customers q) \<le> nat n"
    using q by (auto simp: queue_wf_def)
  have b: "\<forall>q c. length (customers q) = nat (max_size q) \<and> None \<notin> set (customers q) \<longrightarrow>
          add_customer q c = Inr (False, q)"
    using add_customer_full by (simp add: queue_wf_def)
  show ?thesis using a b by blast
qed

theorem C9_queue_capacity_witness:
  "queue_run (CustomerQueue_init 1) [QAdd demo_customer, QAdd demo_customer]
     = Inr \<lparr>customers = [Some demo_customer], max_size = 1\<rparr>
   \<and> length (customers \<lparr>customers = [Some demo_customer], max_size = 1\<rparr>)
       = nat (max_size \<lparr>customers = [Some demo_customer], max_size = 1\<rparr>)
   \<and> None \<notin> set (customers \<lparr>customers = [Some demo_customer], max_size = 1\<rparr>)
   \<and> add_customer \<lparr>customers = [Some demo_customer], max_size = 1\<rparr> demo_customer
       = Inr (False, \<lparr>customers = [Some demo_customer], max_size = 1\<rparr>)"
  using C9_queue_capacity [of 1 "[QAdd demo_customer, QAdd demo_customer]"]
  by (simp add: CustomerQueue_init_def add_customer_def)

section \<open>Properties of binary64 rounding\<close>

lemma ilog2_nonpos: "x \<le> 0 \<Longrightarrow> ilog2 x = 0"
  by (subst ilog2.simps) simp

lemma ilog2_small: "0 < x \<Longrightarrow> x < 1 \<Longrightarrow> ilog2 x = ilog2 (2 * x) - 1"
  by (subst ilog2.simps) simp

lemma ilog2_large: "2 \<le> x \<Longrightarrow> ilog2 x = ilog2 (x / 2) + 1"
  by (subst ilog2.simps) simp

lemma ilog2_unit: "1 \<le> x \<Longrightarrow> x < 2 \<Longrightarrow> ilog2 x = 0"
  by (subst ilog2.simps) simp

lemma powi_succ: "(2::rat) powi (e + 1) = 2 * 2 powi e"
  by (simp add: power_int_add)

lemma powi_pred: "(2::rat) powi (e - 1) = 2 powi e / 2"
  by (simp add: power_int_diff)

lemma ilog2_bounds: "0 < x \<Longrightarrow> 2 powi ilog2 x \<le> x \<and> x < 2 powi (ilog2 x + 1)"
proof (induction x rule: ilog2.induct)
  case (1 x)
  consider "x < 1" | "2 \<le> x" | "1 \<le> x" "x < 2" by linarith
  then show ?case
  proof cases
    case 1
    have ih: "2 powi ilog2 (2 * x) \<le> 2 * x \<and> 2 * x < 2 powi (ilog2 (2 * x) + 1)"
      using "1.IH"(1) "1.prems" 1 by simp
    have e: "ilog2 x = ilog2 (2 * x) - 1" using ilog2_small "1.prems" 1 by simp
    show ?thesis using ih unfolding e by (simp add: powi_pred powi_succ)
  next
    case 2
    have ih: "2 powi ilog2 (x / 2) \<le> x / 2 \<and> x / 2 < 2 powi (ilog2 (x / 2) + 1)"
      using "1.IH"(2) "1.prems" 2 by simp
    have e: "ilog2 x = ilog2 (x / 2) + 1" using ilog2_large 2 by simp
    have p1: "(2::rat) powi (ilog2 (x / 2) + 1) = 2 * 2 powi ilog2 (x / 2)" by (rule powi_succ)
    have p2: "(2::rat) powi (ilog2 (x / 2) + 1 + 1) = 2 * 2 powi (ilog2 (x / 2) + 1)"
      by (rule powi_succ)
    have "2 powi (ilog2 (x / 2) + 1) \<le> x" using ih p1 by linarith
    moreover have "x < 2 powi (ilog2 (x / 2) + 1 + 1)" using ih p2 by linarith
    ultimately show ?thesis unfolding e by blast
  next
    case 3
    then show ?thesis by (simp add: ilog2_unit)
  qed
qed

lemma powi_less_imp: "(2::rat) powi a < 2 powi b \<Longrightarrow> a < b"
  by (rule ccontr) (simp add: not_less power_int_increasing leD)

lemma ilog2_unique:
  assumes "0 < x" "2 powi e \<le> x" "x < 2 powi (e + 1)"
  shows "ilog2 x = e"
proof -
  from ilog2_bounds [OF assms(1)] have b: "2 powi ilog2 x \<le> x" "x < 2 powi (ilog2 x + 1)" by auto
  have "(2::rat) powi e < 2 powi (ilog2 x + 1)" using assms(2) b(2) by linarith
  then have 1: "e < ilog2 x + 1" by (rule powi_less_imp)
  have "(2::rat) powi ilog2 x < 2 powi (e + 1)" using assms(3) b(1) by linarith
  then have 2: "ilog2 x < e + 1" by (rule powi_less_imp)
  show ?thesis using 1 2 by linarith
qed

lemma ilog2_mono: assumes "0 < x" "x \<le> y" shows "ilog2 x \<le> ilog2 y"
proof -
  have y: "0 < y" using assms by linarith
  have "(2::rat) powi ilog2 x < 2 powi (ilog2 y + 1)"
    using ilog2_bounds [OF assms(1)] ilog2_bounds [OF y] assms(2) by linarith
  then have "ilog2 x < ilog2 y + 1" by (rule powi_less_imp)
  then show ?thesis by linarith
qed

lemma round_even_of_int [simp]: "round_even (of_int k) = k"
  by (simp add: round_even_def)

lemma round_even_lower: "\<lfloor>y\<rfloor> \<le> round_even y"
  by (simp add: round_even_def Let_def)

lemma round_even_upper: "round_even y \<le> \<lceil>y\<rceil>"
proof -
  have "y - of_int \<lfloor>y\<rfloor> < 1 / 2 \<or> \<lfloor>y\<rfloor> + 1 \<le> \<lceil>y\<rceil>"
  proof (cases "y = of_int \<lfloor>y\<rfloor>")
    case True then show ?thesis by simp
  next
    case False
    then have "of_int \<lfloor>y\<rfloor> < y" using of_int_floor_le [of y] by linarith
    then have "\<lfloor>y\<rfloor> < \<lceil>y\<rceil>" by (simp add: less_ceiling_iff)
    then show ?thesis by simp
  qed
  moreover have "\<lfloor>y\<rfloor> \<le> \<lceil>y\<rceil>" by (rule floor_le_ceiling)
  ultimately show ?thesis by (auto simp: round_even_def Let_def)
qed

lemma round_even_mono: assumes "x \<le> y" shows "round_even x \<le> round_even y"
proof (cases "\<lfloor>x\<rfloor> = \<lfloor>y\<rfloor>")
  case True
  have "x - of_int \<lfloor>x\<rfloor> \<le> y - of_int \<lfloor>y\<rfloor>" using assms True by simp
  then show ?thesis unfolding round_even_def Let_def True by auto
next
  case False
  then have "\<lfloor>x\<rfloor> < \<lfloor>y\<rfloor>" using floor_mono [OF assms] by linarith
  then have "\<lfloor>x\<rfloor> + 1 \<le> \<lfloor>y\<rfloor>" by simp
  moreover have "round_even x \<le> \<lfloor>x\<rfloor> + 1" by (simp add: round_even_def Let_def)
  ultimately show ?thesis using round_even_lower [of y] by linarith
qed

lemma round_even_nonneg: "0 \<le> y \<Longrightarrow> 0 \<le> round_even y"
  using round_even_mono [of 0 y] round_even_of_int [of 0] by simp

lemma quantum_pos: "0 < quantum x"
  by (simp add: quantum_def)

lemma quantum_abs [simp]: "quantum \<bar>x\<bar> = quantum x" "quantum (- x) = quantum x"
  by (simp_all add: quantum_def)

lemma fl_zero [simp]: "fl 0 = 0"
  by (simp add: fl_def)

lemma fl_pos_eq: "0 < x \<Longrightarrow> fl x = of_int (round_even (x / quantum x)) * quantum x"
  by (simp add: fl_def)

lemma fl_minus: "fl (- x) = - fl x"
  by (simp add: fl_def sgn_minus)

lemma fl_nonneg: "0 \<le> x \<Longrightarrow> 0 \<le> fl x"
proof (cases "x = 0")
  case False
  assume "0 \<le> x"
  then have x: "0 < x" using False by simp
  have "0 \<le> x / quantum x" using x quantum_pos [of x] by simp
  then have "0 \<le> round_even (x / quantum x)" by (rule round_even_nonneg)
  then show ?thesis using x quantum_pos [of x] by (simp add: fl_pos_eq)
qed simp

lemma fl_nonpos: "x \<le> 0 \<Longrightarrow> fl x \<le> 0"
  using fl_nonneg [of "- x"] by (simp add: fl_minus)

lemma powi_53: "(2::rat) powi (e + 1) = 9007199254740992 * 2 powi (e - 52)"
proof -
  have eq: "e + 1 = (e - 52) + 53" by linarith
  have "(2::rat) powi (e + 1) = 2 powi ((e - 52) + 53)" by (subst eq) (rule refl)
  also have "\<dots> = 2 powi (e - 52) * 2 powi 53" by (rule power_int_add) simp
  also have "(2::rat) powi 53 = 9007199254740992" by simp
  finally show ?thesis by simp
qed

lemma powi_52: "(2::rat) powi e = 4503599627370496 * 2 powi (e - 52)"
proof -
  have "(2::rat) powi e = 2 powi ((e - 52) + 52)" by simp
  also have "\<dots> = 2 powi (e - 52) * 2 powi 52" by (rule power_int_add) simp
  also have "(2::rat) powi 52 = 4503599627370496" by simp
  finally show ?thesis by simp
qed

text \<open>For positive x: the scaled value is below 2^53, so the result is at most 2 powi (E + 1).\<close>

lemma scaled_upper:
  assumes "0 < x"
  shows "x / quantum x < 9007199254740992"
proof -
  let ?E = "max (ilog2 x) (- 1022)"
  have "x < 2 powi (ilog2 x + 1)" using ilog2_bounds [OF assms] by simp
  also have "\<dots> \<le> 2 powi (?E + 1)" by (rule power_int_increasing) simp_all
  also have "\<dots> = 9007199254740992 * quantum x" using assms by (simp add: powi_53 quantum_def)
  finally show ?thesis using quantum_pos [of x] by (simp add: field_simps)
qed

lemma scaled_lower:
  assumes "0 < x" "- 1022 \<le> ilog2 x"
  shows "4503599627370496 \<le> x / quantum x"
proof -
  have q: "quantum x = 2 powi (ilog2 x - 52)" using assms by (simp add: quantum_def max_def)
  have "4503599627370496 * quantum x = 2 powi ilog2 x" unfolding q by (rule powi_52 [symmetric])
  also have "\<dots> \<le> x" using ilog2_bounds [OF assms(1)] by simp
  finally show ?thesis using quantum_pos [of x] by (simp add: field_simps)
qed

lemma fl_upper:
  assumes "0 < x"
  shows "fl x \<le> 2 powi (max (ilog2 x) (- 1022) + 1)"
proof -
  have "round_even (x / quantum x) \<le> \<lceil>x / quantum x\<rceil>" by (rule round_even_upper)
  also have "\<dots> \<le> 9007199254740992"
    using scaled_upper [OF assms] by (simp add: ceiling_le_iff)
  finally have "of_int (round_even (x / quantum x)) \<le> (9007199254740992::rat)"
    by (metis of_int_le_iff of_int_numeral)
  then have "fl x \<le> 9007199254740992 * quantum x"
    using quantum_pos [of x] assms by (simp add: fl_pos_eq)
  also have "\<dots> = 2 powi (max (ilog2 x) (- 1022) + 1)"
    using assms by (simp add: powi_53 quantum_def)
  finally show ?thesis .
qed

lemma fl_lower:
  assumes "0 < x" "- 1022 \<le> ilog2 x"
  shows "2 powi ilog2 x \<le> fl x"
proof -
  have q: "quantum x = 2 powi (ilog2 x - 52)" using assms by (simp add: quantum_def max_def)
  have "4503599627370496 \<le> \<lfloor>x / quantum x\<rfloor>"
    using scaled_lower [OF assms] by (simp add: le_floor_iff)
  also have "\<dots> \<le> round_even (x / quantum x)" by (rule round_even_lower)
  finally have "(4503599627370496::rat) \<le> of_int (round_even (x / quantum x))"
    by (metis of_int_le_iff of_int_numeral)
  then have "4503599627370496 * quantum x \<le> fl x"
    using quantum_pos [of x] assms by (simp add: fl_pos_eq)
  moreover have "4503599627370496 * quantum x = 2 powi ilog2 x"
    unfolding q by (rule powi_52 [symmetric])
  ultimately show ?thesis by simp
qed

lemma fl_mono_pos:
  assumes "0 < x" "x \<le> y"
  shows "fl x \<le> fl y"
proof -
  have y: "0 < y" using assms by linarith
  let ?Ex = "max (ilog2 x) (- 1022)" and ?Ey = "max (ilog2 y) (- 1022)"
  have le: "?Ex \<le> ?Ey" using ilog2_mono [OF assms] by simp
  show ?thesis
  proof (cases "?Ex = ?Ey")
    case True
    then have q: "quantum x = quantum y" using assms y by (simp add: quantum_def)
    have "x / quantum y \<le> y / quantum y"
      using assms quantum_pos [of y] by (simp add: divide_right_mono)
    then have "round_even (x / quantum y) \<le> round_even (y / quantum y)" by (rule round_even_mono)
    then have "(of_int (round_even (x / quantum y)) :: rat) \<le> of_int (round_even (y / quantum y))"
      by simp
    then show ?thesis using assms y quantum_pos [of y]
      by (simp add: fl_pos_eq q)
  next
    case False
    then have lt: "?Ex + 1 \<le> ?Ey" using le by linarith
    then have ey: "?Ey = ilog2 y" "- 1022 \<le> ilog2 y" by (auto simp: max_def split: if_splits)
    have "fl x \<le> 2 powi (?Ex + 1)" by (rule fl_upper [OF assms(1)])
    also have "\<dots> \<le> 2 powi ?Ey" using lt by (intro power_int_increasing) simp_all
    also have "\<dots> \<le> fl y" unfolding ey(1) by (rule fl_lower [OF y ey(2)])
    finally show ?thesis .
  qed
qed

lemma fl_mono: assumes "x \<le> y" shows "fl x \<le> fl y"
proof -
  consider "0 < x" | "x \<le> 0" "0 \<le> y" | "y < 0" by linarith
  then show ?thesis
  proof cases
    case 1
    then show ?thesis using assms by (rule fl_mono_pos)
  next
    case 2
    then show ?thesis using fl_nonpos [of x] fl_nonneg [of y] by linarith
  next
    case 3
    then have "0 < - y" "- y \<le> - x" using assms by simp_all
    then have "fl (- y) \<le> fl (- x)" by (rule fl_mono_pos)
    then show ?thesis by (simp add: fl_minus)
  qed
qed

lemma powi_nat: "0 \<le> j \<Longrightarrow> (2::rat) powi j = of_int (2 ^ nat j)"
  by (simp add: power_int_def)

lemma powi_53_add: "9007199254740992 * 2 powi k = (2::rat) powi (k + 53)"
proof -
  have "(2::rat) powi (k + 53) = 2 powi k * 2 powi 53" by (rule power_int_add) simp
  also have "(2::rat) powi 53 = 9007199254740992" by simp
  finally show ?thesis by simp
qed

lemma fl_repr:
  assumes m: "0 < m" "m < 9007199254740992" and k: "- 1074 \<le> k"
  shows "fl (of_int m * 2 powi k) = of_int m * 2 powi k"
proof -
  let ?v = "of_int m * (2::rat) powi k"
  have v: "0 < ?v" using m by simp
  let ?E = "max (ilog2 ?v) (- 1022)"
  have q: "quantum ?v = 2 powi (?E - 52)" using v by (simp add: quantum_def)
  have "(of_int m :: rat) < 9007199254740992" using m(2) by (metis of_int_less_iff of_int_numeral)
  then have "?v < 9007199254740992 * 2 powi k" by simp
  also have "\<dots> = 2 powi (k + 53)" by (rule powi_53_add)
  finally have "?v < 2 powi (k + 53)" .
  moreover have "2 powi ilog2 ?v \<le> ?v" using ilog2_bounds [OF v] by simp
  ultimately have "(2::rat) powi ilog2 ?v < 2 powi (k + 53)" by linarith
  then have "ilog2 ?v < k + 53" by (rule powi_less_imp)
  then have j: "0 \<le> k - (?E - 52)" using k by simp
  have "(2::rat) powi k = 2 powi ((k - (?E - 52)) + (?E - 52))" by simp
  also have "\<dots> = 2 powi (k - (?E - 52)) * 2 powi (?E - 52)" by (rule power_int_add) simp
  finally have split: "(2::rat) powi k = 2 powi (k - (?E - 52)) * quantum ?v" by (simp only: q)
  have "?v / quantum ?v = of_int m * 2 powi (k - (?E - 52))"
    using quantum_pos [of ?v] by (subst split) simp
  also have "\<dots> = of_int (m * 2 ^ nat (k - (?E - 52)))"
    by (simp add: powi_nat [OF j])
  finally have "round_even (?v / quantum ?v) = m * 2 ^ nat (k - (?E - 52))"
    by (simp only: round_even_of_int)
  then have "fl ?v = of_int (m * 2 ^ nat (k - (?E - 52))) * quantum ?v"
    using v by (simp only: fl_pos_eq)
  also have "\<dots> = of_int m * (2 powi (k - (?E - 52)) * quantum ?v)"
    by (simp add: powi_nat [OF j])
  also have "\<dots> = ?v" by (simp only: split [symmetric])
  finally show ?thesis .
qed

lemma round_even_scaled_le:
  assumes "0 < x"
  shows "round_even (x / quantum x) \<le> 9007199254740992"
proof -
  have "round_even (x / quantum x) \<le> \<lceil>x / quantum x\<rceil>" by (rule round_even_upper)
  also have "\<dots> \<le> 9007199254740992"
    using scaled_upper [OF assms] by (simp add: ceiling_le_iff)
  finally show ?thesis .
qed

lemma quantum_exponent: "- 1074 \<le> max (ilog2 \<bar>x\<bar>) (- 1022) - 52"
  by simp

lemma fl_idem_pos:
  assumes "0 < x"
  shows "fl (fl x) = fl x"
proof -
  let ?M = "round_even (x / quantum x)"
  let ?k = "max (ilog2 \<bar>x\<bar>) (- 1022) - 52"
  have fx: "fl x = of_int ?M * 2 powi ?k" using assms by (simp add: fl_pos_eq quantum_def)
  have M0: "0 \<le> ?M" using assms quantum_pos [of x] by (intro round_even_nonneg) simp
  have M1: "?M \<le> 9007199254740992" by (rule round_even_scaled_le [OF assms])
  consider "?M = 0" | "0 < ?M" "?M < 9007199254740992" | "?M = 9007199254740992"
    using M0 M1 by linarith
  then show ?thesis
  proof cases
    case 1
    then show ?thesis by (simp add: fx)
  next
    case 2
    show ?thesis unfolding fx by (rule fl_repr [OF 2 quantum_exponent])
  next
    case 3
    have "(of_int ?M :: rat) = 9007199254740992" by (simp only: 3 of_int_numeral)
    then have "fl x = 2 * 4503599627370496 * 2 powi ?k" by (simp add: fx)
    also have "\<dots> = of_int 4503599627370496 * (2 * 2 powi ?k)" by simp
    also have "2 * (2::rat) powi ?k = 2 powi (?k + 1)" by (rule powi_succ [symmetric])
    finally have e: "fl x = of_int 4503599627370496 * 2 powi (?k + 1)" .
    have "- 1074 \<le> ?k + 1" by simp
    from fl_repr [OF _ _ this, of 4503599627370496] show ?thesis unfolding e by simp
  qed
qed

lemma fl_idem: "fl (fl x) = fl x"
proof -
  consider "0 < x" | "x = 0" | "x < 0" by linarith
  then show ?thesis
  proof cases
    case 1 then show ?thesis by (rule fl_idem_pos)
  next
    case 2 then show ?thesis by simp
  next
    case 3
    then have "fl (fl (- x)) = fl (- x)" by (intro fl_idem_pos) simp
    then show ?thesis by (simp add: fl_minus)
  qed
qed

lemma fl_of_int_pos:
  assumes "0 < d" "d \<le> 9007199254740992"
  shows "fl (of_int d) = of_int d"
proof (cases "d = 9007199254740992")
  case True
  have "fl (of_int 4503599627370496 * 2 powi 1) = of_int 4503599627370496 * 2 powi 1"
    by (rule fl_repr) simp_all
  then show ?thesis by (simp add: True)
next
  case False
  then have "d < 9007199254740992" using assms by simp
  from fl_repr [OF assms(1) this, of 0] show ?thesis by simp
qed

lemma fl_of_int: "\<bar>d\<bar> \<le> 9007199254740992 \<Longrightarrow> fl (of_int d) = of_int d"
proof -
  assume a: "\<bar>d\<bar> \<le> 9007199254740992"
  consider "0 < d" | "d = 0" | "d < 0" by linarith
  then show ?thesis
  proof cases
    case 1 then show ?thesis using a by (intro fl_of_int_pos) simp_all
  next
    case 2 then show ?thesis by simp
  next
    case 3
    then have "fl (of_int (- d)) = of_int (- d)" using a by (intro fl_of_int_pos) simp_all
    then show ?thesis by (simp add: fl_minus)
  qed
qed

lemma fl_numeral_small [simp]: "fl 1 = 1" "fl 2 = 2" "fl 100 = 100"
  using fl_of_int [of 1] fl_of_int [of 2] fl_of_int [of 100] by simp_all

lemma fl_small_ints [simp]: "fl 3 = 3" "fl 4 = 4"
  using fl_of_int [of 3] fl_of_int [of 4] by simp_all

lemma fl_eval:
  assumes "0 < x" "2 powi e \<le> x" "x < 2 powi (e + 1)" "- 1022 \<le> e"
  shows "fl x = of_int (round_even (x / 2 powi (e - 52))) * 2 powi (e - 52)"
proof -
  have "ilog2 x = e" using assms(1-3) by (rule ilog2_unique)
  then have "quantum x = 2 powi (e - 52)" using assms(1,4) by (simp add: quantum_def max_def)
  then show ?thesis using assms(1) by (simp add: fl_pos_eq)
qed

lemma round_even_frac:
  assumes "0 < b"
  shows "round_even (of_int a / of_int b) =
     (if 2 * (a mod b) < b then a div b
      else if b < 2 * (a mod b) then a div b + 1
      else if even (a div b) then a div b else a div b + 1)"
proof -
  have f: "\<lfloor>(of_int a :: rat) / of_int b\<rfloor> = a div b" by (rule floor_divide_of_int_eq)
  have "(of_int a :: rat) = of_int (a div b * b + a mod b)" by simp
  also have "\<dots> = of_int (a div b) * of_int b + of_int (a mod b)" by (simp only: of_int_add of_int_mult)
  finally have "(of_int a :: rat) / of_int b = of_int (a div b) + of_int (a mod b) / of_int b"
    using assms by (simp add: field_simps)
  then have r: "(of_int a :: rat) / of_int b - of_int (a div b) = of_int (a mod b) / of_int b"
    by simp
  have lt: "(of_int (a mod b) / of_int b < (1::rat) / 2) = (2 * (a mod b) < b)"
  proof -
    have "(of_int (a mod b) / of_int b < (1::rat) / 2) = ((of_int (2 * (a mod b)) :: rat) < of_int b)"
      using assms by (simp add: field_simps)
    then show ?thesis by (simp only: of_int_less_iff)
  qed
  have gt: "((1::rat) / 2 < of_int (a mod b) / of_int b) = (b < 2 * (a mod b))"
  proof -
    have "((1::rat) / 2 < of_int (a mod b) / of_int b) = ((of_int b :: rat) < of_int (2 * (a mod b)))"
      using assms by (simp add: field_simps)
    then show ?thesis by (simp only: of_int_less_iff)
  qed
  show ?thesis unfolding round_even_def Let_def f r lt gt by (rule refl)
qed

lemma round_even_numeral [simp]:
  "round_even (numeral a / numeral b) =
     (if 2 * (numeral a mod numeral b) < (numeral b :: int) then numeral a div numeral b
      else if (numeral b :: int) < 2 * (numeral a mod numeral b) then numeral a div numeral b + 1
      else if even (numeral a div numeral b :: int) then numeral a div numeral b
           else numeral a div numeral b + 1)"
  using round_even_frac [of "numeral b" "numeral a"] by simp

lemma round_even_numeral' [simp]: "round_even (numeral a) = numeral a"
  using round_even_of_int [of "numeral a"] by simp


section \<open>Properties of the customer\<close>

lemma py_int_of_int [simp]: "py_int (of_int k) = k"
  by (simp add: py_int_def)

lemma py_int_zero [simp]: "py_int 0 = 0"
  by (simp add: py_int_def)

lemma two_53_below_overflow: "(9007199254740992::rat) < 2 powi 1024"
proof -
  have "(2::rat) powi 53 < 2 powi 1024" by (rule power_int_strict_increasing) simp_all
  then show ?thesis by simp
qed

lemma no_overflow_53: "\<bar>x\<bar> \<le> 9007199254740992 \<Longrightarrow> \<not> float_overflow x"
  using two_53_below_overflow by (simp add: float_overflow_def)

lemma no_overflow_of_int_53: "\<bar>d\<bar> \<le> 9007199254740992 \<Longrightarrow> \<not> float_overflow (of_int d)"
proof (rule no_overflow_53)
  assume "\<bar>d\<bar> \<le> 9007199254740992"
  then have "(of_int \<bar>d\<bar> :: rat) \<le> of_int 9007199254740992" by (simp only: of_int_le_iff)
  then show "\<bar>of_int d :: rat\<bar> \<le> 9007199254740992" by simp
qed

lemma py_float_exact: "\<bar>d\<bar> \<le> 9007199254740992 \<Longrightarrow> py_float d = Inr (of_int d)"
  by (simp add: py_float_def fl_of_int no_overflow_of_int_53)

lemma int_of_product_one:
  assumes "\<bar>d\<bar> \<le> 9007199254740992"
  shows "int_of_product (of_int d) 1 = Inr d"
proof -
  have "\<not> float_overflow 1" by (rule no_overflow_53) simp
  then show ?thesis
    using assms by (simp add: int_of_product_def fl_of_int no_overflow_of_int_53)
qed

lemma int_of_product_zero: "int_of_product w 0 = Inr 0"
proof -
  have "\<not> float_overflow 0" by (rule no_overflow_53) simp
  then show ?thesis by (simp add: int_of_product_def)
qed

text \<open>
  C8. For a customer whose tip range \<open>[lo, hi]\<close> has \<open>lo \<le> hi\<close> and a width
  \<open>hi - lo\<close> of at most \<open>2^53\<close> (so that the width is a binary64 number):
  \<open>calculate_tip(true, 1.0) = hi\<close>, \<open>calculate_tip(true, 0.0) = lo\<close>, and
  \<open>calculate_tip(false, r) = 0\<close> for every ratio \<open>r\<close>.
\<close>

theorem C8_calculate_tip:
  assumes "py_index (tip_range c) 0 = Inr lo" and "py_index (tip_range c) 1 = Inr hi"
    and "lo \<le> hi" and "hi - lo \<le> 9007199254740992"
  shows "calculate_tip c (Some True) 1 = Inr hi
       \<and> calculate_tip c (Some True) 0 = Inr lo
       \<and> (\<forall>r. calculate_tip c (Some False) r = Inr 0)"
proof -
  have w: "\<bar>hi - lo\<bar> \<le> 9007199254740992" using assms(3,4) by simp
  have one: "calculate_tip c (Some True) 1 = Inr hi"
    using assms(1,2)
    by (simp add: calculate_tip_def py_float_exact [OF w] int_of_product_one [OF w]
          del: of_int_diff)
  have zero: "calculate_tip c (Some True) 0 = Inr lo"
    using assms(1,2)
    by (simp add: calculate_tip_def py_float_exact [OF w] int_of_product_zero del: of_int_diff)
  have wrong: "\<forall>r. calculate_tip c (Some False) r = Inr 0"
    by (simp add: calculate_tip_def)
  show ?thesis using one zero wrong by blast
qed

theorem C8_calculate_tip_witness:
  "py_index (tip_range demo_customer) 0 = Inr 2 \<and> py_index (tip_range demo_customer) 1 = Inr 5
   \<and> calculate_tip demo_customer (Some True) 1 = Inr 5
   \<and> calculate_tip demo_customer (Some True) 0 = Inr 2
   \<and> calculate_tip demo_customer (Some False) (1 / 2) = Inr 0"
proof -
  have a: "py_index (tip_range demo_customer) 0 = Inr 2"
    by (simp add: demo_customer_def py_index_def py_norm_def)
  have b: "py_index (tip_range demo_customer) 1 = Inr 5"
    by (simp add: demo_customer_def py_index_def py_norm_def)
  show ?thesis using C8_calculate_tip [OF a b] a b by simp
qed

lemma fl_2_53_1: "fl 9007199254740993 = 9007199254740992"
  using fl_eval [of 9007199254740993 53] by simp

text \<open>
  Without the bound on the width the first equation fails: the width \<open>2^53 + 1\<close> is rounded
  to \<open>2^53\<close> when it is multiplied by the ratio \<open>1.0\<close>.
\<close>

theorem C8_calculate_tip_counterexample:
  "py_index (tip_range big_tipper) 0 = Inr 0
   \<and> py_index (tip_range big_tipper) 1 = Inr 9007199254740993
   \<and> calculate_tip big_tipper (Some True) 1 = Inr 9007199254740992"
proof -
  have r: "fl (of_int 9007199254740993) = 9007199254740992" using fl_2_53_1 by simp
  have f: "py_float 9007199254740993 = Inr 9007199254740992"
    using no_overflow_53 [of 9007199254740992] by (simp add: py_float_def fl_2_53_1)
  have p: "int_of_product 9007199254740992 1 = Inr 9007199254740992"
    using int_of_product_one [of 9007199254740992] by simp
  show ?thesis
    by (simp add: big_tipper_def calculate_tip_def py_index_def py_norm_def f p)
qed

subsection \<open>Conversions that do not overflow\<close>

lemma round_even_below:
  assumes "y < of_int M - 1 / 2"
  shows "round_even y \<le> M - 1"
proof -
  have "y < of_int M" using assms by linarith
  then have f: "\<lfloor>y\<rfloor> \<le> M - 1" by (simp add: floor_less_iff)
  show ?thesis
  proof (cases "\<lfloor>y\<rfloor> = M - 1")
    case True
    then have "y - of_int \<lfloor>y\<rfloor> < 1 / 2" using assms by simp
    then show ?thesis using True by (simp add: round_even_def Let_def)
  next
    case False
    then have "\<lfloor>y\<rfloor> + 1 \<le> M - 1" using f by linarith
    moreover have "round_even y \<le> \<lfloor>y\<rfloor> + 1" by (simp add: round_even_def Let_def)
    ultimately show ?thesis by linarith
  qed
qed

lemma powi_1023: "(2::rat) powi 1023 = of_int 4503599627370496 * 2 powi 971"
  using powi_52 [of 1023] by simp

lemma powi_1024: "(2::rat) powi 1024 = 9007199254740992 * 2 powi 971"
  using powi_53_add [of 971] by simp

lemma powi_970: "(2::rat) powi 970 = 2 powi 971 / 2"
  using powi_pred [of 971] by simp

lemma fl_powi_1023: "fl (2 powi 1023) = 2 powi 1023"
  unfolding powi_1023 by (rule fl_repr) simp_all

lemma fl_below_overflow:
  assumes "0 \<le> x" "x < 2 powi 1024 - 2 powi 970"
  shows "fl x < 2 powi 1024"
proof (cases "x < 2 powi 1023")
  case True
  then have "fl x \<le> fl (2 powi 1023)" by (intro fl_mono) simp
  also have "\<dots> = 2 powi 1023" by (rule fl_powi_1023)
  also have "\<dots> < 2 powi 1024" by (rule power_int_strict_increasing) simp_all
  finally show ?thesis .
next
  case False
  let ?q = "(2::rat) powi 971"
  have q: "0 < ?q" by simp
  have lower: "2 powi 1023 \<le> x" using False by simp
  have xpos: "0 < x"
  proof -
    have "(0::rat) < 2 powi 1023" by simp
    then show ?thesis using lower by linarith
  qed
  have upper: "x < 2 powi (1023 + 1)"
  proof -
    have "(0::rat) < 2 powi 970" by simp
    then show ?thesis using assms(2) by simp
  qed
  have "x < 9007199254740992 * ?q - ?q / 2" using assms(2) by (simp only: powi_1024 powi_970)
  then have "x / ?q < 9007199254740992 - 1 / 2" using q by (simp add: field_simps)
  then have "x / ?q < of_int 9007199254740992 - 1 / 2" by simp
  then have "round_even (x / ?q) \<le> 9007199254740992 - 1" by (rule round_even_below)
  then have "(of_int (round_even (x / ?q)) :: rat) \<le> of_int (9007199254740992 - 1)"
    by (simp only: of_int_le_iff)
  then have "of_int (round_even (x / ?q)) * ?q \<le> of_int (9007199254740992 - 1) * ?q"
    using q by (simp only: mult_le_cancel_right_pos)
  also have "\<dots> < 9007199254740992 * ?q" using q by simp
  finally have "of_int (round_even (x / ?q)) * ?q < 2 powi 1024" by (simp only: powi_1024)
  moreover have "fl x = of_int (round_even (x / ?q)) * ?q"
    using fl_eval [OF xpos lower upper] by simp
  ultimately show ?thesis by simp
qed

lemma py_float_width:
  assumes "0 \<le> d" "d < 2 ^ 1024 - 2 ^ 970"
  shows "py_float d = Inr (fl (of_int d))" "0 \<le> fl (of_int d)" "fl (of_int d) < 2 powi 1024"
proof -
  have "(of_int d :: rat) < of_int (2 ^ 1024 - 2 ^ 970)" using assms(2) by (simp only: of_int_less_iff)
  also have "(of_int (2 ^ 1024 - 2 ^ 970) :: rat) = 2 powi 1024 - 2 powi 970"
    by (simp add: power_int_def)
  finally have "(of_int d :: rat) < 2 powi 1024 - 2 powi 970" .
  moreover have d0: "(0::rat) \<le> of_int d" using assms(1) by simp
  ultimately show lt: "fl (of_int d) < 2 powi 1024" by (intro fl_below_overflow)
  show ge: "0 \<le> fl (of_int d)" using d0 by (rule fl_nonneg)
  show "py_float d = Inr (fl (of_int d))" using lt ge by (simp add: py_float_def float_overflow_def)
qed

lemma int_of_product_ratio:
  assumes w: "0 \<le> w" "w < 2 powi 1024" "fl w = w" and r: "0 \<le> r" "r \<le> 1"
  shows "\<exists>b. int_of_product w r = Inr b \<and> 0 \<le> b"
proof -
  have one: "(1::rat) < 2 powi 1024"
  proof -
    have "(2::rat) powi 0 < 2 powi 1024" by (rule power_int_strict_increasing) simp_all
    then show ?thesis by simp
  qed
  have nr: "\<not> float_overflow r" using r one by (simp add: float_overflow_def)
  have "w * r \<le> w * 1" using r(2) w(1) by (rule mult_left_mono)
  then have "fl (w * r) \<le> fl w" by (intro fl_mono) simp
  then have le: "fl (w * r) \<le> w" by (simp only: w(3))
  have ge: "0 \<le> fl (w * r)" using w(1) r(1) by (intro fl_nonneg) simp
  have np: "\<not> float_overflow (fl (w * r))" using le ge w(2) by (simp add: float_overflow_def)
  have "0 \<le> py_int (fl (w * r))" using ge by (simp add: py_int_def)
  then show ?thesis using nr np by (simp add: int_of_product_def)
qed

section \<open>Properties of the recipe book\<close>

lemma random_choice_mem: "random_choice k xs = Inr x \<Longrightarrow> x \<in> set xs"
  by (auto simp: random_choice_def split: if_splits)

lemma random_choice_error: "(random_choice k xs = Inl e) = (xs = [] \<and> e = IndexError)"
  by (auto simp: random_choice_def)

text \<open>
  C6. \<open>get_random_recipe\<close> never returns a recipe whose id starts with \<open>banishing\<close>, and
  whatever it returns is a recipe of the book. It raises exactly when the book has no ordinary
  recipe, that is when every recipe of the book (if any) is a banishing recipe; if the book has
  an ordinary recipe it returns one.
\<close>

theorem C6_get_random_recipe:
  "(\<forall>r. get_random_recipe k rb = Inr r \<longrightarrow>
        r \<in> snd ` set (recipes rb) \<and> \<not> startswith (r_id r) ''banishing'')
   \<and> ((\<exists>e. get_random_recipe k rb = Inl e) \<longleftrightarrow>
        (\<forall>r \<in> snd ` set (recipes rb). startswith (r_id r) ''banishing''))
   \<and> ((\<exists>r \<in> snd ` set (recipes rb). \<not> startswith (r_id r) ''banishing'') \<longrightarrow>
        (\<exists>r. get_random_recipe k rb = Inr r))"
proof -
  have empty: "(regular_recipes rb = []) =
               (\<forall>r \<in> snd ` set (recipes rb). startswith (r_id r) ''banishing'')"
    by (auto simp: regular_recipes_def filter_empty_conv)
  have a: "\<forall>r. get_random_recipe k rb = Inr r \<longrightarrow>
        r \<in> snd ` set (recipes rb) \<and> \<not> startswith (r_id r) ''banishing''"
    by (auto simp: get_random_recipe_def regular_recipes_def dest!: random_choice_mem)
  have b: "(\<exists>e. get_random_recipe k rb = Inl e) \<longleftrightarrow>
        (\<forall>r \<in> snd ` set (recipes rb). startswith (r_id r) ''banishing'')"
    unfolding empty [symmetric] by (simp add: get_random_recipe_def random_choice_error)
  have c: "(\<exists>r \<in> snd ` set (recipes rb). \<not> startswith (r_id r) ''banishing'') \<longrightarrow>
        (\<exists>r. get_random_recipe k rb = Inr r)"
    using b by (metis sum.exhaust_sel Inl_Inr_False sumE)
  show ?thesis using a b c by blast
qed

theorem C6_get_random_recipe_witness:
  "get_random_recipe 3 demo_book = Inr latte
   \<and> latte \<in> snd ` set (recipes demo_book) \<and> \<not> startswith (r_id latte) ''banishing''
   \<and> (\<exists>r \<in> snd ` set (recipes demo_book). \<not> startswith (r_id r) ''banishing'')
   \<and> (\<exists>e. get_random_recipe 0 banishing_only_book = Inl e)"
  using C6_get_random_recipe [of 3 demo_book] C6_get_random_recipe [of 0 banishing_only_book]
  by (simp add: get_random_recipe_def regular_recipes_def random_choice_def demo_book_def
        banishing_only_book_def latte_def banishing_espresso_def startswith_def)

text \<open>
  A non-empty book is not enough: a book that holds only the banishing espresso makes
  \<open>random.choice\<close> raise on the empty list of regular recipes.
\<close>

theorem C6_get_random_recipe_counterexample:
  "recipes banishing_only_book \<noteq> [] \<and> get_random_recipe 0 banishing_only_book = Inl IndexError"
  by (simp add: get_random_recipe_def regular_recipes_def random_choice_def
        banishing_only_book_def banishing_espresso_def startswith_def)

section \<open>Properties of serving\<close>

lemma py_index_slot:
  "0 \<le> i \<Longrightarrow> i < int (length xs) \<Longrightarrow> py_index xs i = Inr (xs ! nat i)"
  by (simp add: py_index_def py_norm_def)

lemma py_setitem_slot:
  "0 \<le> i \<Longrightarrow> i < int (length xs) \<Longrightarrow> py_setitem xs i v = Inr (xs[nat i := v])"
  by (simp add: py_setitem_def py_norm_def)

lemma remove_customer_slot:
  assumes "length (customers q) = nat (max_size q)" "0 \<le> i" "i < max_size q"
  shows "remove_customer q i = Inr (customers q ! nat i, q\<lparr>customers := (customers q)[nat i := None]\<rparr>)"
proof -
  have "i < int (length (customers q))" using assms by simp
  then show ?thesis using assms(2,3)
    by (simp add: remove_customer_def py_index_slot py_setitem_slot)
qed

lemma serve_drink_slot:
  assumes wf: "length (customers (customer_queue sc)) = nat (max_size (customer_queue sc))"
    and sel: "selected_customer_index (brewing_station sc) = Some i"
    and i: "0 \<le> i" "i < max_size (customer_queue sc)"
    and occ: "customers (customer_queue sc) ! nat i = Some c"
    and mp: "max_patience c \<noteq> 0"
    and tp: "calculate_tip c (map_option (\<lambda>r. matches r xs) (RecipeBook_find (recipe_book sc) (desired_recipe c)))
               (fl (patience c / max_patience c)) = Inr t"
  shows "\<exists>msg. serve_drink sc xs =
     Inr (\<lparr>success = map_option (\<lambda>r. matches r xs) (RecipeBook_find (recipe_book sc) (desired_recipe c)),
           tip = t, message = msg\<rparr>,
          sc\<lparr>customers_served := customers_served sc + 1, total_tips := total_tips sc + t,
             customer_queue := (customer_queue sc)\<lparr>customers :=
                (customers (customer_queue sc))[nat i := None]\<rparr>\<rparr>)"
proof -
  have len: "i < int (length (customers (customer_queue sc)))" using wf i by simp
  have idx: "py_index (customers (customer_queue sc)) i = Inr (Some c)"
    using py_index_slot [OF i(1) len] occ by simp
  have corr: "(case RecipeBook_find (recipe_book sc) (desired_recipe c) of None \<Rightarrow> None
               | Some r \<Rightarrow> Some (matches r xs))
              = map_option (\<lambda>r. matches r xs) (RecipeBook_find (recipe_book sc) (desired_recipe c))"
    by (simp split: option.splits)
  have rm: "remove_customer (customer_queue sc) i =
            Inr (Some c, (customer_queue sc)\<lparr>customers := (customers (customer_queue sc))[nat i := None]\<rparr>)"
    using remove_customer_slot [OF wf i] occ by simp
  show ?thesis
    unfolding serve_drink_def sel
    by (simp add: idx mp Let_def corr tp rm)
qed

lemma calculate_tip_wrong: "calculate_tip c (Some False) ratio = Inr 0"
  by (simp add: calculate_tip_def)

lemma calculate_tip_bounded:
  assumes "py_index (tip_range c) 0 = Inr lo" "py_index (tip_range c) 1 = Inr hi"
    and "lo \<le> hi" "hi - lo < 2 ^ 1024 - 2 ^ 970" and "0 \<le> ratio" "ratio \<le> 1"
  shows "\<exists>t. calculate_tip c (Some True) ratio = Inr t \<and> lo \<le> t"
proof -
  have d: "0 \<le> hi - lo" using assms(3) by simp
  note w = py_float_width [OF d assms(4)]
  have "fl (fl (of_int (hi - lo))) = fl (of_int (hi - lo))" by (rule fl_idem)
  from int_of_product_ratio [OF w(2,3) this assms(5,6)] obtain b where
    b: "int_of_product (fl (of_int (hi - lo))) ratio = Inr b" "0 \<le> b" by blast
  have "calculate_tip c (Some True) ratio = Inr (lo + b)"
    using assms(1,2) by (simp add: calculate_tip_def w(1) b(1) del: of_int_diff)
  then show ?thesis using b(2) by simp
qed

lemma ratio_unit:
  assumes "0 \<le> p" "p \<le> m" "0 < m"
  shows "0 \<le> fl (p / m)" "fl (p / m) \<le> 1"
proof -
  show "0 \<le> fl (p / m)" using assms by (intro fl_nonneg) simp
  have "p / m \<le> 1" using assms by simp
  then have "fl (p / m) \<le> fl 1" by (rule fl_mono)
  then show "fl (p / m) \<le> 1" by simp
qed

text \<open>
  C1. The station is bound to a slot \<open>i\<close> of the queue (\<open>0 \<le> i < max_size\<close>) that holds a
  customer whose desired recipe is in the recipe book, with \<open>0 \<le> patience \<le> max_patience\<close>,
  \<open>0 < max_patience\<close>, \<open>tip_range[0] \<le> tip_range[1]\<close> and a tip range narrow enough to convert
  to a float (\<open>tip_range[1] - tip_range[0] < 2^1024 - 2^970\<close>). Then \<open>serve_drink\<close> returns;
  with exactly the recipe's ingredient sequence the result has \<open>success = True\<close> and
  \<open>tip \<ge> tip_range[0]\<close>, with any other sequence (a permutation included) it has
  \<open>success = False\<close> and \<open>tip = 0\<close>; in both cases slot \<open>i\<close> is emptied and the other
  slots are unchanged.
\<close>

theorem C1_serve_drink:
  assumes wf: "length (customers (customer_queue sc)) = nat (max_size (customer_queue sc))"
    and sel: "selected_customer_index (brewing_station sc) = Some i"
    and i: "0 \<le> i" "i < max_size (customer_queue sc)"
    and occ: "customers (customer_queue sc) ! nat i = Some c"
    and rec: "RecipeBook_find (recipe_book sc) (desired_recipe c) = Some r"
    and pat: "0 \<le> patience c" "patience c \<le> max_patience c" "0 < max_patience c"
    and tips: "py_index (tip_range c) 0 = Inr lo" "py_index (tip_range c) 1 = Inr hi" "lo \<le> hi"
      "hi - lo < 2 ^ 1024 - 2 ^ 970"
  shows "\<exists>res sc'. serve_drink sc xs = Inr (res, sc')
     \<and> (xs = steps r \<longrightarrow> success res = Some True \<and> lo \<le> tip res)
     \<and> (xs \<noteq> steps r \<longrightarrow> success res = Some False \<and> tip res = 0)
     \<and> customers (customer_queue sc') = (customers (customer_queue sc))[nat i := None]
     \<and> customers (customer_queue sc') ! nat i = None"
proof -
  have mp: "max_patience c \<noteq> 0" using pat(3) by simp
  note ratio = ratio_unit [OF pat]
  have slot: "nat i < length (customers (customer_queue sc))" using wf i by simp
  show ?thesis
  proof (cases "xs = steps r")
    case True
    from calculate_tip_bounded [OF tips ratio] obtain t where
      t: "calculate_tip c (Some True) (fl (patience c / max_patience c)) = Inr t" "lo \<le> t"
      by blast
    have tp: "calculate_tip c (map_option (\<lambda>r. matches r xs)
                 (RecipeBook_find (recipe_book sc) (desired_recipe c)))
               (fl (patience c / max_patience c)) = Inr t"
      using True t(1) by (simp add: rec matches_def)
    show ?thesis
      using serve_drink_slot [OF wf sel i occ mp tp] True slot t(2) by (auto simp: rec matches_def)
  next
    case False
    have tp: "calculate_tip c (map_option (\<lambda>r. matches r xs)
                 (RecipeBook_find (recipe_book sc) (desired_recipe c)))
               (fl (patience c / max_patience c)) = Inr 0"
      using False by (simp add: rec matches_def calculate_tip_wrong)
    show ?thesis
      using serve_drink_slot [OF wf sel i occ mp tp] False slot by (auto simp: rec matches_def)
  qed
qed

lemma serving_controller_simps:
  "customers (customer_queue (serving_controller c)) = [Some c, None, None, None, None]"
  "max_size (customer_queue (serving_controller c)) = 5"
  "selected_customer_index (brewing_station (serving_controller c)) = Some 0"
  "recipe_book (serving_controller c) = demo_book"
  by (simp_all add: serving_controller_def start_order_def ServiceController_init_def)

lemma find_latte: "RecipeBook_find demo_book (Some ''latte'') = Some latte"
  by (simp add: RecipeBook_find_def demo_book_def)

theorem C1_serve_drink_witness:
  "map_sum id (\<lambda>(res, sc'). (success res, 2 \<le> tip res, customers (customer_queue sc') ! 0))
      (serve_drink (serving_controller demo_customer) [''beans'', ''milk'', ''stardust''])
     = Inr (Some True, True, None)
   \<and> map_sum id (\<lambda>(res, sc'). (success res, tip res, customers (customer_queue sc') ! 0))
      (serve_drink (serving_controller demo_customer) [''milk'', ''beans'', ''stardust''])
     = Inr (Some False, 0, None)"
proof -
  let ?sc = "serving_controller demo_customer"
  have wf: "length (customers (customer_queue ?sc)) = nat (max_size (customer_queue ?sc))"
    by (simp add: serving_controller_simps)
  have sel: "selected_customer_index (brewing_station ?sc) = Some 0"
    by (simp add: serving_controller_simps)
  have i: "(0::int) \<le> 0" "0 < max_size (customer_queue ?sc)"
    by (simp_all add: serving_controller_simps)
  have occ: "customers (customer_queue ?sc) ! nat 0 = Some demo_customer"
    by (simp add: serving_controller_simps)
  have rec: "RecipeBook_find (recipe_book ?sc) (desired_recipe demo_customer) = Some latte"
    by (simp add: serving_controller_simps demo_customer_def find_latte)
  have pat: "0 \<le> patience demo_customer" "patience demo_customer \<le> max_patience demo_customer"
    "0 < max_patience demo_customer"
    by (simp_all add: demo_customer_def)
  have tips: "py_index (tip_range demo_customer) 0 = Inr 2"
    "py_index (tip_range demo_customer) 1 = Inr 5" "(2::int) \<le> 5"
    "(5::int) - 2 < 2 ^ 1024 - 2 ^ 970"
    by (simp_all add: demo_customer_def py_index_def py_norm_def)
  note inst = C1_serve_drink [OF wf sel i occ rec pat tips]
  from inst [of "[''beans'', ''milk'', ''stardust'']"] inst [of "[''milk'', ''beans'', ''stardust'']"]
  show ?thesis by (auto simp: latte_def)
qed

lemma py_float_small [simp]: "py_float 3 = Inr 3" "py_float (- 4) = Inr (- 4)"
  using py_float_exact [of 3] py_float_exact [of "- 4"] by simp_all

lemma int_of_product_small [simp]: "int_of_product 3 1 = Inr 3" "int_of_product (- 4) 1 = Inr (- 4)"
  using int_of_product_one [of 3] int_of_product_one [of "- 4"] by simp_all

lemma py_float_huge: "py_float (2 ^ 1024) = Inl OverflowError"
proof -
  have "(2::rat) powi 1024 = of_int 4503599627370496 * 2 powi 972" using powi_52 [of 1024] by simp
  moreover have "fl (of_int 4503599627370496 * 2 powi 972) = of_int 4503599627370496 * 2 powi 972"
    by (rule fl_repr) simp_all
  ultimately have "fl (2 powi 1024) = 2 powi 1024" by simp
  moreover have "(of_int (2 ^ 1024) :: rat) = 2 powi 1024" by (simp add: power_int_def)
  ultimately have "fl (of_int (2 ^ 1024)) = 2 powi 1024" by (simp only:)
  then show ?thesis by (simp only: py_float_def float_overflow_def) simp
qed

text \<open>
  The added conditions are needed. A customer spawned from a template of patience 0
  satisfies \<open>0 \<le> patience \<le> max_patience\<close>, and serving it divides by zero. With
  \<open>tip_range = [5, 1]\<close> a correct drink at full patience is tipped 1, below \<open>tip_range[0]\<close>.
  With \<open>tip_range = [0, 2^1024]\<close> the width does not convert to a float and a correct drink
  raises OverflowError before the customer is removed.
\<close>

theorem C1_serve_drink_counterexample:
  "0 \<le> patience (demo_customer\<lparr>patience := 0, max_patience := 0\<rparr>)
   \<and> patience (demo_customer\<lparr>patience := 0, max_patience := 0\<rparr>)
       \<le> max_patience (demo_customer\<lparr>patience := 0, max_patience := 0\<rparr>)
   \<and> serve_drink (serving_controller (demo_customer\<lparr>patience := 0, max_patience := 0\<rparr>))
        [''beans'', ''milk'', ''stardust''] = Inl ZeroDivisionError
   \<and> map_sum id (tip \<circ> fst)
        (serve_drink (serving_controller (demo_customer\<lparr>tip_range := [5, 1]\<rparr>))
           [''beans'', ''milk'', ''stardust'']) = Inr 1
   \<and> serve_drink (serving_controller huge_tipper) [''beans'', ''milk'', ''stardust'']
       = Inl OverflowError"
proof -
  have a: "serve_drink (serving_controller (demo_customer\<lparr>patience := 0, max_patience := 0\<rparr>))
        [''beans'', ''milk'', ''stardust''] = Inl ZeroDivisionError"
    by (simp add: serve_drink_def serving_controller_simps py_index_def py_norm_def
          demo_customer_def)
  have t: "calculate_tip (demo_customer\<lparr>tip_range := [5, 1]\<rparr>) (Some True) 1 = Inr 1"
    by (simp add: calculate_tip_def py_index_def py_norm_def)
  have b: "map_sum id (tip \<circ> fst)
        (serve_drink (serving_controller (demo_customer\<lparr>tip_range := [5, 1]\<rparr>))
           [''beans'', ''milk'', ''stardust'']) = Inr 1"
    using t
    by (simp add: serve_drink_def serving_controller_simps py_index_def py_norm_def
          demo_customer_def find_latte matches_def latte_def remove_customer_def py_setitem_def)
  have h: "calculate_tip huge_tipper (Some True) 1 = Inl OverflowError"
    unfolding calculate_tip_def huge_tipper_def
    by (simp add: py_index_def py_norm_def py_float_huge del: power_numeral)
  have c: "serve_drink (serving_controller huge_tipper) [''beans'', ''milk'', ''stardust'']
       = Inl OverflowError"
    using h
    by (simp add: serve_drink_def serving_controller_simps py_index_def py_norm_def
          huge_tipper_def demo_customer_def find_latte matches_def latte_def)
  show ?thesis using a b c by (simp add: demo_customer_def)
qed

lemma serve_drink_station:
  "serve_drink sc xs = Inr (res, sc') \<Longrightarrow> brewing_station sc' = brewing_station sc"
  by (auto simp: serve_drink_def ebind_def remove_customer_def Let_def
           split: option.splits sum.splits if_splits)

lemma spawn_customer_station:
  "spawn_customer sc dr = Inr (b, sc') \<Longrightarrow> brewing_station sc' = brewing_station sc"
  by (auto simp: spawn_customer_def ebind_def split: sum.splits if_splits)

lemma start_day_station:
  "start_day sc day dr = Inr sc' \<Longrightarrow> brewing_station sc' = brewing_station sc"
  by (auto simp: start_day_def Let_def ebind_def split: sum.splits dest!: spawn_customer_station)

lemma ServiceController_update_station:
  assumes "ServiceController_update sc dt mods dr = Inr (ev, sc')"
  shows "brewing_station sc' =
           (if active sc then snd (BrewingStation_update (brewing_station sc) dt mods)
            else brewing_station sc)"
proof (cases "active sc")
  case False
  then show ?thesis using assms by (auto simp: ServiceController_update_def)
next
  case True
  let ?sc1 = "sc\<lparr>time_remaining := fl (time_remaining sc - dt)\<rparr>"
  let ?sc2 = "if time_remaining ?sc1 \<le> 0 then ?sc1\<lparr>time_remaining := 0, active := False\<rparr> else ?sc1"
  let ?sc3 = "?sc2\<lparr>spawn_timer := fl (spawn_timer ?sc2 - dt)\<rparr>"
  from assms True obtain sc5 where
    sc5: "(if spawn_timer ?sc3 \<le> 0 \<and>
                 customers_served ?sc3 + int (length (get_active_customers (customer_queue ?sc3))) < 8
              then ebind (spawn_customer ?sc3 dr) (\<lambda>(b, sc4).
                     Inr (if b then sc4\<lparr>spawn_timer := fl (spawn_interval sc4 + d_jitter dr)\<rparr>
                          else sc4))
              else Inr ?sc3) = Inr sc5"
    and st: "brewing_station sc' = snd (BrewingStation_update (brewing_station sc5) dt mods)"
    unfolding ServiceController_update_def
    by (auto simp: Let_def ebind_def split: sum.splits if_splits)
  have "brewing_station sc5 = brewing_station sc"
  proof (cases "spawn_timer ?sc3 \<le> 0 \<and>
                 customers_served ?sc3 + int (length (get_active_customers (customer_queue ?sc3))) < 8")
    case False
    then show ?thesis using sc5 by (auto split: if_splits)
  next
    case c: True
    from sc5 c obtain b sc4 where sp: "spawn_customer ?sc3 dr = Inr (b, sc4)"
      and e: "sc5 = (if b then sc4\<lparr>spawn_timer := fl (spawn_interval sc4 + d_jitter dr)\<rparr> else sc4)"
      by (auto simp: ebind_def split: sum.splits if_splits)
    have "brewing_station sc4 = brewing_station ?sc3" using sp by (rule spawn_customer_station)
    then show ?thesis by (simp add: e)
  qed
  then show ?thesis using True st by simp
qed

lemma BrewingStation_update_frame:
  "selected_customer_index (snd (BrewingStation_update bs dt mods)) = selected_customer_index bs"
  "current_recipe (snd (BrewingStation_update bs dt mods)) = current_recipe bs"
  "is_brewing (snd (BrewingStation_update bs dt mods)) = is_brewing bs"
  by (simp_all add: BrewingStation_update_def Let_def)

lemma serve_drink_repeat:
  assumes wf: "length (customers (customer_queue sc)) = nat (max_size (customer_queue sc))"
    and sel: "selected_customer_index (brewing_station sc) = Some i"
    and i: "0 \<le> i" "i < max_size (customer_queue sc)"
    and sd: "serve_drink sc xs = Inr (res, sc')" and ok: "success res = Some True"
  shows "selected_customer_index (brewing_station sc') = Some i \<and>
         customers (customer_queue sc') ! nat i = None \<and>
         serve_drink sc' ys = Inr (\<lparr>success = Some False, tip = 0, message = []\<rparr>, sc')"
proof -
  have len: "i < int (length (customers (customer_queue sc)))" using wf i by simp
  have idx: "py_index (customers (customer_queue sc)) i = Inr (customers (customer_queue sc) ! nat i)"
    by (rule py_index_slot [OF i(1) len])
  have rm: "remove_customer (customer_queue scx) i =
          Inr (customers (customer_queue scx) ! nat i,
               (customer_queue scx)\<lparr>customers := (customers (customer_queue scx))[nat i := None]\<rparr>)"
    if "customer_queue scx = customer_queue sc" for scx :: ServiceController
    using remove_customer_slot [of "customer_queue scx" i] wf i that by simp
  have q': "customers (customer_queue sc') = (customers (customer_queue sc))[nat i := None]"
    using sd ok unfolding serve_drink_def sel
    by (auto simp: idx Let_def ebind_def rm split: option.splits sum.splits if_splits)
  have st: "brewing_station sc' = brewing_station sc" using sd by (rule serve_drink_station)
  have sel': "selected_customer_index (brewing_station sc') = Some i" using st sel by simp
  have len': "i < int (length (customers (customer_queue sc')))" using q' len by simp
  have empty: "customers (customer_queue sc') ! nat i = None" using q' len i by simp
  have "py_index (customers (customer_queue sc')) i = Inr None"
    using py_index_slot [OF i(1) len'] empty by simp
  then have "serve_drink sc' ys = Inr (\<lparr>success = Some False, tip = 0, message = []\<rparr>, sc')"
    unfolding serve_drink_def sel' by simp
  then show ?thesis using sel' empty by simp
qed

text \<open>
  C10. Whenever \<open>serve_drink\<close> returns, the brewing station (selected index, current recipe,
  brewing flag, brew time) is what it was before the call; so do \<open>spawn_customer\<close>,
  \<open>start_day\<close> and \<open>ring_bell\<close> leave it. Besides the station's own \<open>start_order\<close>,
  \<open>add_ingredient\<close>, \<open>complete_order\<close> and \<open>cancel_order\<close>, the station is changed by
  \<open>BrewingStation.update\<close>, which every \<open>update\<close> of an active controller runs and which
  changes \<open>current_brew_time\<close> alone. After a successful serve through a station bound to a
  slot \<open>i\<close> with \<open>0 \<le> i < max_size\<close>, the station is still bound to \<open>i\<close>, the slot is empty,
  and a repeated \<open>serve_drink\<close> with any sequence returns the failure result and leaves the
  whole controller, and with it \<open>customers_served\<close> and \<open>total_tips\<close>, unchanged.
\<close>

theorem C10_serve_drink_frame:
  "(\<forall>res sc'. serve_drink sc xs = Inr (res, sc') \<longrightarrow> brewing_station sc' = brewing_station sc)
   \<and> (\<forall>b sc'. spawn_customer sc dr = Inr (b, sc') \<longrightarrow> brewing_station sc' = brewing_station sc)
   \<and> (\<forall>sc'. start_day sc day dr = Inr sc' \<longrightarrow> brewing_station sc' = brewing_station sc)
   \<and> brewing_station (ring_bell sc) = brewing_station sc
   \<and> (\<forall>ev sc'. ServiceController_update sc dt mods dr = Inr (ev, sc') \<longrightarrow>
         brewing_station sc' =
           (if active sc then snd (BrewingStation_update (brewing_station sc) dt mods)
            else brewing_station sc))
   \<and> selected_customer_index (snd (BrewingStation_update bs dt mods)) = selected_customer_index bs
   \<and> current_recipe (snd (BrewingStation_update bs dt mods)) = current_recipe bs
   \<and> is_brewing (snd (BrewingStation_update bs dt mods)) = is_brewing bs
   \<and> (\<forall>i res sc'.
         length (customers (customer_queue sc)) = nat (max_size (customer_queue sc)) \<and>
         selected_customer_index (brewing_station sc) = Some i \<and>
         0 \<le> i \<and> i < max_size (customer_queue sc) \<and>
         serve_drink sc xs = Inr (res, sc') \<and> success res = Some True \<longrightarrow>
         selected_customer_index (brewing_station sc') = Some i \<and>
         customers (customer_queue sc') ! nat i = None \<and>
         serve_drink sc' ys = Inr (\<lparr>success = Some False, tip = 0, message = []\<rparr>, sc'))"
proof -
  have a: "\<forall>res sc'. serve_drink sc xs = Inr (res, sc') \<longrightarrow> brewing_station sc' = brewing_station sc"
    using serve_drink_station by blast
  have b: "\<forall>b sc'. spawn_customer sc dr = Inr (b, sc') \<longrightarrow> brewing_station sc' = brewing_station sc"
    using spawn_customer_station by blast
  have c: "\<forall>sc'. start_day sc day dr = Inr sc' \<longrightarrow> brewing_station sc' = brewing_station sc"
    using start_day_station by blast
  have d: "brewing_station (ring_bell sc) = brewing_station sc" by (simp add: ring_bell_def)
  have e: "\<forall>ev sc'. ServiceController_update sc dt mods dr = Inr (ev, sc') \<longrightarrow>
         brewing_station sc' =
           (if active sc then snd (BrewingStation_update (brewing_station sc) dt mods)
            else brewing_station sc)"
    using ServiceController_update_station by blast
  have f: "\<forall>i res sc'.
         length (customers (customer_queue sc)) = nat (max_size (customer_queue sc)) \<and>
         selected_customer_index (brewing_station sc) = Some i \<and>
         0 \<le> i \<and> i < max_size (customer_queue sc) \<and>
         serve_drink sc xs = Inr (res, sc') \<and> success res = Some True \<longrightarrow>
         selected_customer_index (brewing_station sc') = Some i \<and>
         customers (customer_queue sc') ! nat i = None \<and>
         serve_drink sc' ys = Inr (\<lparr>success = Some False, tip = 0, message = []\<rparr>, sc')"
    using serve_drink_repeat by blast
  show ?thesis by (intro conjI a b c d e f BrewingStation_update_frame)
qed

theorem C10_serve_drink_frame_witness:
  "map_sum id
     (\<lambda>(res, sc'). (success res,
        brewing_station sc' = brewing_station (serving_controller demo_customer),
        selected_customer_index (brewing_station sc'),
        customers (customer_queue sc') ! 0,
        serve_drink sc' [''beans'', ''milk'', ''stardust'']
          = Inr (\<lparr>success = Some False, tip = 0, message = []\<rparr>, sc')))
     (serve_drink (serving_controller demo_customer) [''beans'', ''milk'', ''stardust''])
   = Inr (Some True, True, Some 0, None, True)"
proof -
  let ?sc = "serving_controller demo_customer"
  let ?xs = "[''beans'', ''milk'', ''stardust'']"
  have wf: "length (customers (customer_queue ?sc)) = nat (max_size (customer_queue ?sc))"
    by (simp add: serving_controller_simps)
  have sel: "selected_customer_index (brewing_station ?sc) = Some 0"
    by (simp add: serving_controller_simps)
  have i: "(0::int) \<le> 0" "0 < max_size (customer_queue ?sc)"
    by (simp_all add: serving_controller_simps)
  have occ: "customers (customer_queue ?sc) ! nat 0 = Some demo_customer"
    by (simp add: serving_controller_simps)
  have mp: "max_patience demo_customer \<noteq> 0" by (simp add: demo_customer_def)
  have tp: "calculate_tip demo_customer (map_option (\<lambda>r. matches r ?xs)
               (RecipeBook_find (recipe_book ?sc) (desired_recipe demo_customer)))
             (fl (patience demo_customer / max_patience demo_customer)) = Inr 5"
    by (simp add: serving_controller_simps demo_customer_def find_latte matches_def latte_def
          calculate_tip_def py_index_def py_norm_def)
  from serve_drink_slot [OF wf sel i occ mp tp] obtain res sc' where
    sd: "serve_drink ?sc ?xs = Inr (res, sc')" and ok: "success res = Some True"
    by (auto simp: serving_controller_simps demo_customer_def find_latte matches_def latte_def)
  from C10_serve_drink_frame [where sc = ?sc and xs = ?xs and ys = ?xs] wf sel i sd ok
  show ?thesis by simp
qed

lemma serving_last_simps:
  "customers (customer_queue (serving_last c)) = [None, None, None, None, Some c]"
  "max_size (customer_queue (serving_last c)) = 5"
  "selected_customer_index (brewing_station (serving_last c)) = Some (- 1)"
  "recipe_book (serving_last c) = demo_book"
  "customers_served (serving_last c) = 0"
  "total_tips (serving_last c) = 0"
  by (simp_all add: serving_last_def start_order_def ServiceController_init_def)

text \<open>
  A station bound by \<open>start_order(-1)\<close> reads the last slot, which \<open>remove_customer(-1)\<close>
  refuses to empty: the customer stays, and a repeated serve succeeds again and counts a second
  served customer. And \<open>BrewingStation.update\<close> does change the station: it advances
  \<open>current_brew_time\<close>.
\<close>

theorem C10_serve_drink_frame_counterexample:
  "map_sum id (success \<circ> fst)
     (serve_twice (serving_last demo_customer) [''beans'', ''milk'', ''stardust'']) = Inr (Some True)
   \<and> map_sum id (success \<circ> fst \<circ> snd)
     (serve_twice (serving_last demo_customer) [''beans'', ''milk'', ''stardust'']) = Inr (Some True)
   \<and> map_sum id (customers_served \<circ> snd \<circ> snd)
     (serve_twice (serving_last demo_customer) [''beans'', ''milk'', ''stardust'']) = Inr 2
   \<and> map_sum id (total_tips \<circ> snd \<circ> snd)
     (serve_twice (serving_last demo_customer) [''beans'', ''milk'', ''stardust'']) = Inr 10
   \<and> current_brew_time brewing_beans = 0
   \<and> current_brew_time (snd (BrewingStation_update brewing_beans 1 [])) = 1"
proof -
  have t: "calculate_tip demo_customer (Some True) 1 = Inr 5"
    by (simp add: calculate_tip_def demo_customer_def py_index_def py_norm_def)
  have s: "serve_twice (serving_last demo_customer) [''beans'', ''milk'', ''stardust''] =
             Inr (\<lparr>success = Some True, tip = 5, message = ''Zorp loved their Cosmic Latte!''\<rparr>,
                  \<lparr>success = Some True, tip = 5, message = ''Zorp loved their Cosmic Latte!''\<rparr>,
                  (serving_last demo_customer)\<lparr>customers_served := 2, total_tips := 10\<rparr>)"
    using t
    by (simp add: serve_twice_def serve_drink_def serving_last_simps py_index_def py_norm_def
          demo_customer_def find_latte matches_def latte_def remove_customer_def)
  have b: "current_brew_time brewing_beans = 0"
    "current_brew_time (snd (BrewingStation_update brewing_beans 1 [])) = 1"
    by (simp_all add: BrewingStation_update_def Let_def brewing_beans_def add_ingredient_def
          start_order_def BrewingStation_init_def dict_get_def)
  show ?thesis unfolding s using b by simp
qed

section \<open>Properties of the brewing station\<close>

lemma fl_12_10: "fl (6 / 5) = 5404319552844595 / 4503599627370496"
  using fl_eval [of "6 / 5" 0] by simp

lemma BrewingStation_update_fst:
  "fst (BrewingStation_update bs dt mods) =
     (is_brewing bs \<and> current_recipe bs \<noteq> [] \<and>
      brew_time_per_step bs \<le> fl (current_brew_time bs + fl (dt * dict_get mods ''brew_speed'' 1)))"
  by (simp add: BrewingStation_update_def Let_def)

lemma BrewingStation_update_snd:
  "is_brewing (snd (BrewingStation_update bs dt mods)) = is_brewing bs"
  "current_recipe (snd (BrewingStation_update bs dt mods)) = current_recipe bs"
  "brew_time_per_step (snd (BrewingStation_update bs dt mods)) = brew_time_per_step bs"
  "current_brew_time (snd (BrewingStation_update bs dt mods)) =
     (if is_brewing bs \<and> current_recipe bs \<noteq> []
      then fl (current_brew_time bs + fl (dt * dict_get mods ''brew_speed'' 1))
      else current_brew_time bs)"
  by (simp_all add: BrewingStation_update_def Let_def)

lemma brew_time_grows:
  assumes thr: "fl thr = thr" and le: "thr \<le> t" and a: "0 \<le> a"
  shows "thr \<le> fl (t + fl a)"
proof -
  have "0 \<le> fl a" using a by (rule fl_nonneg)
  then have "thr \<le> t + fl a" using le by linarith
  then have "fl thr \<le> fl (t + fl a)" by (rule fl_mono)
  then show ?thesis by (simp only: thr)
qed

lemma brew_results_level:
  assumes "fl (brew_time_per_step bs) = brew_time_per_step bs"
    and "\<forall>(dt, mods) \<in> set ticks. 0 \<le> dt \<and> 0 \<le> dict_get mods ''brew_speed'' 1"
    and "is_brewing bs" "current_recipe bs \<noteq> []"
    and "brew_time_per_step bs \<le> current_brew_time bs"
  shows "brew_results bs ticks = replicate (length ticks) True"
  using assms
proof (induction ticks arbitrary: bs)
  case Nil
  then show ?case by simp
next
  case (Cons tick ticks)
  obtain dt mods where tick: "tick = (dt, mods)" by (cases tick)
  have pos: "0 \<le> dt * dict_get mods ''brew_speed'' 1" using Cons.prems(2) tick by simp
  have now: "brew_time_per_step bs \<le> fl (current_brew_time bs + fl (dt * dict_get mods ''brew_speed'' 1))"
    by (rule brew_time_grows [OF Cons.prems(1) Cons.prems(5) pos])
  have "brew_results (snd (BrewingStation_update bs dt mods)) ticks = replicate (length ticks) True"
    using Cons.prems now by (intro Cons.IH) (simp_all add: BrewingStation_update_snd)
  then show ?case using now Cons.prems(3,4) by (simp add: tick BrewingStation_update_fst)
qed

text \<open>
  C3. \<open>BrewingStation.update\<close> returns true exactly when the station is brewing a non-empty
  sequence and the brew time accumulated for the current step, this tick's \<open>dt * brew_speed\<close>
  included, has reached the per-step threshold. Over any run of \<open>update\<close> calls with
  non-negative \<open>dt\<close> and \<open>brew_speed\<close> and no other station call in between, the results are
  false up to the tick that crosses the threshold and true on that tick and on every later one:
  a level signal.
\<close>

theorem C3_brewing_update_level:
  assumes "fl (brew_time_per_step bs) = brew_time_per_step bs"
    and "\<forall>(dt, mods) \<in> set ticks. 0 \<le> dt \<and> 0 \<le> dict_get mods ''brew_speed'' 1"
  shows "(\<forall>dt mods. fst (BrewingStation_update bs dt mods) =
            (is_brewing bs \<and> current_recipe bs \<noteq> [] \<and>
             brew_time_per_step bs
               \<le> fl (current_brew_time bs + fl (dt * dict_get mods ''brew_speed'' 1))))
       \<and> (\<exists>k \<le> length ticks.
            brew_results bs ticks = replicate k False @ replicate (length ticks - k) True)"
proof -
  have level: "\<exists>k \<le> length ticks.
            brew_results bs ticks = replicate k False @ replicate (length ticks - k) True"
    using assms
  proof (induction ticks arbitrary: bs)
    case Nil
    then show ?case by simp
  next
    case (Cons tick ticks)
    obtain dt mods where tick: "tick = (dt, mods)" by (cases tick)
    let ?bs = "snd (BrewingStation_update bs dt mods)"
    have thr: "fl (brew_time_per_step ?bs) = brew_time_per_step ?bs"
      using Cons.prems(1) by (simp add: BrewingStation_update_snd)
    have rest: "\<forall>(dt, mods) \<in> set ticks. 0 \<le> dt \<and> 0 \<le> dict_get mods ''brew_speed'' 1"
      using Cons.prems(2) by simp
    show ?case
    proof (cases "fst (BrewingStation_update bs dt mods)")
      case True
      then have "is_brewing ?bs" "current_recipe ?bs \<noteq> []"
        "brew_time_per_step ?bs \<le> current_brew_time ?bs"
        by (simp_all add: BrewingStation_update_fst BrewingStation_update_snd)
      from brew_results_level [OF thr rest this]
      have "brew_results bs (tick # ticks) = replicate 0 False @ replicate (length (tick # ticks) - 0) True"
        using True by (simp add: tick)
      then show ?thesis by blast
    next
      case False
      from Cons.IH [OF thr rest] obtain k where
        k: "k \<le> length ticks" "brew_results ?bs ticks = replicate k False @ replicate (length ticks - k) True"
        by blast
      have "brew_results bs (tick # ticks) =
              replicate (Suc k) False @ replicate (length (tick # ticks) - Suc k) True"
        using False k by (simp add: tick)
      moreover have "Suc k \<le> length (tick # ticks)" using k by simp
      ultimately show ?thesis by blast
    qed
  qed
  show ?thesis using level by (simp add: BrewingStation_update_fst)
qed

lemma brewing_beans_simps:
  "is_brewing brewing_beans" "current_recipe brewing_beans = [''beans'']"
  "current_brew_time brewing_beans = 0" "brew_time_per_step brewing_beans = fl (6 / 5)"
  by (simp_all add: brewing_beans_def add_ingredient_def start_order_def BrewingStation_init_def)

lemma brew_results_beans:
  "brew_results brewing_beans [(1, []), (1, []), (1, [])] = [False, True, True]"
  "brew_results brewing_beans [(2, []), (2, [])] = [True, True]"
  by (simp_all add: BrewingStation_update_def Let_def brewing_beans_simps dict_get_def fl_12_10)

theorem C3_brewing_update_level_witness:
  "fl (brew_time_per_step brewing_beans) = brew_time_per_step brewing_beans
   \<and> list_all (\<lambda>(dt, mods). 0 \<le> dt \<and> 0 \<le> dict_get mods ''brew_speed'' 1)
        [(1, []), (1, []), (1::rat, [] :: (string \<times> rat) list)]
   \<and> brew_results brewing_beans [(1, []), (1, []), (1, [])] = [False] @ [True, True]"
proof -
  have thr: "fl (brew_time_per_step brewing_beans) = brew_time_per_step brewing_beans"
    by (simp add: brewing_beans_simps fl_idem)
  have ticks: "\<forall>(dt, mods) \<in> set [(1, []), (1, []), (1::rat, [] :: (string \<times> rat) list)].
         0 \<le> dt \<and> 0 \<le> dict_get mods ''brew_speed'' 1"
    by (simp add: dict_get_def)
  from C3_brewing_update_level [OF thr ticks] thr ticks
  show ?thesis unfolding brew_results_beans(1) by (simp add: dict_get_def)
qed

text \<open>Two consecutive ticks of 2 s on one step both return true.\<close>

theorem C3_brewing_update_level_counterexample:
  "length (filter id (brew_results brewing_beans [(2, []), (2, [])])) = 2"
  unfolding brew_results_beans(2) by simp

section \<open>Properties of the service controller\<close>

lemma slots_ok_update: "slots_ok cs \<Longrightarrow> (\<And>c. x = Some c \<Longrightarrow> cust_ok c) \<Longrightarrow> slots_ok (cs[i := x])"
  unfolding slots_ok_def using set_update_subset_insert [of cs i x] by blast

lemma slots_ok_replicate: "slots_ok (replicate n None)"
  by (simp add: slots_ok_def)

lemma Customer_update_patience:
  "patience (Customer_update c dt mods) = fl (patience c - fl (dt * dict_get mods ''patience_decay'' 1))"
  "max_patience (Customer_update c dt mods) = max_patience c"
  by (simp_all add: Customer_update_def Let_def)

lemma Customer_update_ok:
  assumes "cust_ok c" "0 \<le> dt" "0 \<le> dict_get mods ''patience_decay'' 1"
  shows "fl (patience (Customer_update c dt mods)) = patience (Customer_update c dt mods)"
    and "patience (Customer_update c dt mods) \<le> max_patience (Customer_update c dt mods)"
    and "0 \<le> max_patience (Customer_update c dt mods)"
proof -
  let ?a = "fl (dt * dict_get mods ''patience_decay'' 1)"
  have "0 \<le> ?a" using assms(2,3) by (intro fl_nonneg) simp
  then have "patience c - ?a \<le> patience c" by simp
  then have "fl (patience c - ?a) \<le> fl (patience c)" by (rule fl_mono)
  then have "fl (patience c - ?a) \<le> patience c" using assms(1) by (simp add: cust_ok_def)
  then show "patience (Customer_update c dt mods) \<le> max_patience (Customer_update c dt mods)"
    using assms(1) by (simp add: Customer_update_patience cust_ok_def)
  show "fl (patience (Customer_update c dt mods)) = patience (Customer_update c dt mods)"
    by (simp add: Customer_update_patience fl_idem)
  show "0 \<le> max_patience (Customer_update c dt mods)"
    using assms(1) by (simp add: Customer_update_patience cust_ok_def)
qed

lemma queue_update_loop_ok:
  assumes "0 \<le> dt" "0 \<le> dict_get mods ''patience_decay'' 1"
  shows "slots_ok cs \<Longrightarrow> \<forall>c \<in> set left. left_ok c \<Longrightarrow>
         queue_update_loop dt mods idx cs left = Inr (left', cs') \<Longrightarrow>
         slots_ok cs' \<and> (\<forall>c \<in> set left'. left_ok c)"
proof (induction idx arbitrary: cs left)
  case Nil
  then show ?case by simp
next
  case (Cons i idx)
  from Cons.prems(3) have i: "i < length cs" by (auto split: if_splits)
  show ?case
  proof (cases "cs ! i")
    case None
    then show ?thesis using Cons i by simp
  next
    case (Some c)
    then have "Some c \<in> set cs" using i by (metis nth_mem)
    then have c: "cust_ok c" using Cons.prems(1) by (simp add: slots_ok_def)
    let ?c = "Customer_update c dt mods"
    note upd = Customer_update_ok [OF c assms]
    show ?thesis
    proof (cases "patience ?c \<le> 0")
      case True
      have run: "queue_update_loop dt mods idx (cs[i := None]) (left @ [?c]) = Inr (left', cs')"
        using Cons.prems(3) i Some True by (simp add: Let_def)
      have "slots_ok (cs[i := None])" using Cons.prems(1) by (rule slots_ok_update) simp
      moreover have "\<forall>x \<in> set (left @ [?c]). left_ok x"
        using Cons.prems(2) True upd(3) by (auto simp: left_ok_def)
      ultimately show ?thesis using Cons.IH run by blast
    next
      case False
      have run: "queue_update_loop dt mods idx (cs[i := Some ?c]) left = Inr (left', cs')"
        using Cons.prems(3) i Some False by (simp add: Let_def)
      have "cust_ok ?c" using upd False by (simp add: cust_ok_def)
      then have "slots_ok (cs[i := Some ?c])" using Cons.prems(1) by (intro slots_ok_update) simp_all
      then show ?thesis using Cons.IH Cons.prems(2) run by blast
    qed
  qed
qed

lemma CustomerQueue_update_ok:
  assumes "0 \<le> dt" "0 \<le> dict_get mods ''patience_decay'' 1" "slots_ok (customers q)"
    and "CustomerQueue_update q dt mods = Inr (left, q')"
  shows "slots_ok (customers q') \<and> (\<forall>c \<in> set left. left_ok c)"
proof -
  from assms(4) obtain cs' where
    run: "queue_update_loop dt mods [0..<nat (max_size q)] (customers q) [] = Inr (left, cs')"
    and q': "q' = q\<lparr>customers := cs'\<rparr>"
    by (auto simp: CustomerQueue_update_def ebind_def split: sum.splits)
  from queue_update_loop_ok [OF assms(1,2) assms(3) _ run] show ?thesis by (simp add: q')
qed

lemma add_customer_loop_ok:
  "slots_ok cs \<Longrightarrow> cust_ok c \<Longrightarrow> add_customer_loop cs c idx = Inr (b, cs') \<Longrightarrow> slots_ok cs'"
proof (induction idx)
  case Nil
  then show ?case by simp
next
  case (Cons i idx)
  then show ?case by (auto split: if_splits intro: slots_ok_update)
qed

lemma add_customer_ok:
  assumes "slots_ok (customers q)" "cust_ok c" "add_customer q c = Inr (b, q')"
  shows "slots_ok (customers q')"
proof -
  from assms(3) obtain cs' where
    run: "add_customer_loop (customers q) c [0..<nat (max_size q)] = Inr (b, cs')"
    and q': "q' = q\<lparr>customers := cs'\<rparr>"
    by (auto simp: add_customer_def ebind_def split: sum.splits)
  from add_customer_loop_ok [OF assms(1,2) run] show ?thesis by (simp add: q')
qed

lemma new_customer_ok: "0 \<le> t_patience t \<Longrightarrow> cust_ok (new_customer t r)"
  by (simp add: new_customer_def cust_ok_def Let_def fl_idem fl_nonneg)

lemma spawn_customer_ok:
  assumes "sc_inv sc" "spawn_customer sc dr = Inr (b, sc')"
  shows "sc_inv sc'"
proof (cases "customer_pool sc = [] \<or> \<not> active sc")
  case True
  then show ?thesis using assms by (auto simp: spawn_customer_def)
next
  case False
  from assms(2) False obtain t r q' where
    t: "random_choice (d_template dr) (customer_pool sc) = Inr t"
    and add: "add_customer (customer_queue sc) (new_customer t r) = Inr (b, q')"
    and sc': "sc' = sc\<lparr>customer_queue := q'\<rparr>"
    by (auto simp: spawn_customer_def ebind_def split: sum.splits if_splits)
  have "t \<in> set (customer_pool sc)" using t by (rule random_choice_mem)
  then have "0 \<le> t_patience t" using assms(1) by (simp add: sc_inv_def)
  then have "cust_ok (new_customer t r)" by (rule new_customer_ok)
  from add_customer_ok [OF _ this add] assms(1) show ?thesis by (simp add: sc_inv_def sc')
qed

lemma spawn_customer_frame:
  assumes "spawn_customer sc dr = Inr (b, sc')"
  shows "customer_pool sc' = customer_pool sc"
  using assms by (auto simp: spawn_customer_def ebind_def split: sum.splits if_splits)

lemma start_day_ok:
  assumes "\<forall>t \<in> set (customer_pool sc). 0 \<le> t_patience t" "start_day sc day dr = Inr sc'"
  shows "sc_inv sc'"
proof -
  let ?sc2 = "sc\<lparr>time_remaining := day_time sc, customers_served := 0, total_tips := 0,
                    spawn_timer := 2, cafe_heat := 0, active := True,
                  customer_queue := (customer_queue sc)\<lparr>customers :=
                          replicate (nat (max_size (customer_queue sc))) None\<rparr>\<rparr>"
  from assms(2) obtain b where sp: "spawn_customer ?sc2 dr = Inr (b, sc')"
    by (auto simp: start_day_def Let_def ebind_def split: sum.splits)
  have "sc_inv ?sc2" using assms(1) by (simp add: sc_inv_def slots_ok_replicate)
  then show ?thesis using sp by (rule spawn_customer_ok)
qed

lemma ServiceController_update_ok:
  assumes inv: "sc_inv sc" and dt: "0 \<le> dt" "0 \<le> dict_get mods ''patience_decay'' 1"
    and upd: "ServiceController_update sc dt mods dr = Inr (ev, sc')"
  shows "sc_inv sc' \<and> (\<forall>c \<in> set (customers_left ev). left_ok c)"
proof (cases "active sc")
  case False
  then show ?thesis using inv upd by (auto simp: ServiceController_update_def)
next
  case True
  let ?sc1 = "sc\<lparr>time_remaining := fl (time_remaining sc - dt)\<rparr>"
  let ?sc2 = "if time_remaining ?sc1 \<le> 0 then ?sc1\<lparr>time_remaining := 0, active := False\<rparr> else ?sc1"
  let ?sc3 = "?sc2\<lparr>spawn_timer := fl (spawn_timer ?sc2 - dt)\<rparr>"
  have inv3: "sc_inv ?sc3" using inv by (simp add: sc_inv_def)
  from upd True obtain sc5 left q where
    sc5: "(if spawn_timer ?sc3 \<le> 0 \<and>
                 customers_served ?sc3 + int (length (get_active_customers (customer_queue ?sc3))) < 8
              then ebind (spawn_customer ?sc3 dr) (\<lambda>(b, sc4).
                     Inr (if b then sc4\<lparr>spawn_timer := fl (spawn_interval sc4 + d_jitter dr)\<rparr>
                          else sc4))
              else Inr ?sc3) = Inr sc5"
    and qu: "CustomerQueue_update (customer_queue sc5) dt mods = Inr (left, q)"
    and ev: "customers_left ev = left"
    and sc': "customer_queue sc' = q" "customer_pool sc' = customer_pool sc5"
    unfolding ServiceController_update_def
    by (auto simp: Let_def ebind_def split: sum.splits if_splits)
  have inv5: "sc_inv sc5"
  proof (cases "spawn_timer ?sc3 \<le> 0 \<and>
                 customers_served ?sc3 + int (length (get_active_customers (customer_queue ?sc3))) < 8")
    case False
    then show ?thesis using sc5 inv3 by (simp del: if_split split: if_splits)
  next
    case c: True
    from sc5 c obtain b sc4 where sp: "spawn_customer ?sc3 dr = Inr (b, sc4)"
      and e: "sc5 = (if b then sc4\<lparr>spawn_timer := fl (spawn_interval sc4 + d_jitter dr)\<rparr> else sc4)"
      by (auto simp: ebind_def split: sum.splits if_splits)
    have "sc_inv sc4" using inv3 sp by (rule spawn_customer_ok)
    then show ?thesis by (simp add: e sc_inv_def)
  qed
  from CustomerQueue_update_ok [OF dt _ qu] inv5
  have "slots_ok (customers q) \<and> (\<forall>c \<in> set left. left_ok c)" by (simp add: sc_inv_def)
  then show ?thesis using inv5 by (simp add: sc_inv_def sc' ev)
qed

lemma serve_drink_ok:
  assumes "sc_inv sc" "serve_drink sc xs = Inr (res, sc')"
  shows "sc_inv sc'"
proof -
  have "customer_pool sc' = customer_pool sc \<and>
        (customers (customer_queue sc') = customers (customer_queue sc) \<or>
         (\<exists>j. customers (customer_queue sc') = (customers (customer_queue sc))[j := None]))"
    using assms(2)
    by (auto simp: serve_drink_def ebind_def remove_customer_def py_setitem_def Let_def
             split: option.splits sum.splits if_splits)
  then show ?thesis using assms(1) by (auto simp: sc_inv_def intro: slots_ok_update)
qed

lemma reveal_patience: "patience (reveal c d) = patience c" "max_patience (reveal c d) = max_patience c"
  by (simp_all add: reveal_def)

lemma ring_bell_ok:
  assumes "sc_inv sc"
  shows "sc_inv (ring_bell sc)"
proof -
  have "cust_ok c'" if "Some c' \<in> set (customers (customer_queue (ring_bell sc)))" for c'
  proof -
    from that obtain c where c: "Some c \<in> set (customers (customer_queue sc))"
      and c': "c' = c \<or> c' = reveal c 2"
      by (auto simp: ring_bell_def split: option.splits if_splits)
    have "cust_ok c" using assms c by (simp add: sc_inv_def slots_ok_def)
    then show ?thesis using c' by (auto simp: cust_ok_def reveal_patience)
  qed
  moreover have "customer_pool (ring_bell sc) = customer_pool sc" by (simp add: ring_bell_def)
  ultimately show ?thesis using assms by (simp add: sc_inv_def slots_ok_def)
qed

lemma sc_step_ok:
  assumes "sc_inv sc" "op_ok op" "sc_step sc op = Inr (left, sc')"
  shows "sc_inv sc' \<and> (\<forall>c \<in> set left. left_ok c)"
proof (cases op)
  case (OpStartDay day dr)
  then show ?thesis using assms start_day_ok [of sc day dr sc']
    by (auto simp: ebind_def sc_inv_def split: sum.splits)
next
  case (OpUpdate dt mods dr)
  then show ?thesis using assms ServiceController_update_ok [of sc dt mods dr]
    by (auto simp: ebind_def split: sum.splits)
next
  case (OpSpawn dr)
  then show ?thesis using assms spawn_customer_ok [of sc dr]
    by (auto simp: ebind_def split: sum.splits)
next
  case (OpServe xs)
  then show ?thesis using assms serve_drink_ok [of sc xs]
    by (auto simp: ebind_def split: sum.splits)
next
  case OpRingBell
  then show ?thesis using assms ring_bell_ok [of sc] by auto
qed (use assms in \<open>auto simp: sc_inv_def\<close>)

lemma sc_run_ok:
  "sc_inv sc \<Longrightarrow> \<forall>op \<in> set ops. op_ok op \<Longrightarrow> sc_run sc ops = Inr (left, sc') \<Longrightarrow>
   sc_inv sc' \<and> (\<forall>c \<in> set left. left_ok c)"
proof (induction ops arbitrary: sc left)
  case Nil
  then show ?case by simp
next
  case (Cons op ops)
  from Cons.prems(3) obtain l sc1 ls where
    st: "sc_step sc op = Inr (l, sc1)" and rn: "sc_run sc1 ops = Inr (ls, sc')"
    and left: "left = l @ ls"
    by (auto simp: ebind_def split: sum.splits)
  have 1: "sc_inv sc1 \<and> (\<forall>c \<in> set l. left_ok c)"
    using sc_step_ok [OF Cons.prems(1) _ st] Cons.prems(2) by simp
  have 2: "sc_inv sc' \<and> (\<forall>c \<in> set ls. left_ok c)"
    using Cons.IH [OF _ _ rn] 1 Cons.prems(2) by simp
  show ?case using 1 2 left by auto
qed

text \<open>
  C2. Start from a fresh controller whose templates all have \<open>patience \<ge> 0\<close>, and run any
  sequence of calls in which every \<open>update\<close> has \<open>dt \<ge> 0\<close> and a non-negative
  \<open>patience_decay\<close> modifier. If the run returns, every customer in a queue slot has
  \<open>0 \<le> patience \<le> max_patience\<close>, and every customer returned in a \<open>customers_left\<close> list
  has \<open>patience \<le> 0 \<le> max_patience\<close>: the patience of a customer that leaves is not clamped
  at 0.
\<close>

theorem C2_patience_bounds:
  assumes "\<forall>t \<in> set pool. 0 \<le> t_patience t"
    and "\<forall>op \<in> set ops. op_ok op"
    and "sc_run (ServiceController_init rb pool) ops = Inr (left, sc)"
  shows "(\<forall>c. Some c \<in> set (customers (customer_queue sc)) \<longrightarrow>
            0 \<le> patience c \<and> patience c \<le> max_patience c)
       \<and> (\<forall>c \<in> set left. patience c \<le> 0 \<and> 0 \<le> max_patience c)"
proof -
  have "sc_inv (ServiceController_init rb pool)"
    using assms(1)
    by (simp add: sc_inv_def ServiceController_init_def CustomerQueue_init_def slots_ok_replicate)
  from sc_run_ok [OF this assms(2,3)] show ?thesis
    by (auto simp: sc_inv_def slots_ok_def cust_ok_def left_ok_def)
qed

lemma fl_numeral: "(numeral n :: int) \<le> 9007199254740992 \<Longrightarrow> fl (numeral n) = numeral n"
  using fl_of_int [of "numeral n"] by simp

lemma fl_neg_numeral: "(numeral n :: int) \<le> 9007199254740992 \<Longrightarrow> fl (- numeral n) = - numeral n"
  by (simp add: fl_minus fl_numeral)

lemma range_5: "[0..<5] = [0, 1, 2, 3, 4]"
  by (simp add: upt_rec)

lemma replicate_5: "replicate 5 x = [x, x, x, x, x]"
  by (simp add: numeral_eq_Suc)

lemmas sc_eval = range_5 replicate_5
  start_day_def ServiceController_update_def spawn_customer_def new_customer_def
  ServiceController_init_def CustomerQueue_init_def BrewingStation_init_def
  add_customer_def CustomerQueue_update_def Customer_update_def BrewingStation_update_def
  get_active_customers_def has_fire_elemental_def get_random_recipe_def regular_recipes_def
  random_choice_def startswith_def dict_get_def demo_book_def latte_def banishing_espresso_def
  hasty_def grumpy_def d0_def Let_def List.map_filter_simps fl_numeral fl_neg_numeral fl_minus

lemma run_a:
  "map_sum id (map patience \<circ> fst)
     (sc_run (ServiceController_init demo_book [hasty]) [OpStartDay 1 d0, OpUpdate 2 [] d0])
   = Inr [- 1, - 1]"
  by (simp add: sc_eval)


lemma run_b:
  "map_sum id (map (map_option patience) \<circ> customers \<circ> customer_queue \<circ> snd)
     (sc_run (ServiceController_init demo_book [hasty])
        [OpStartDay 1 d0, OpUpdate 1 [(''patience_decay'', - 1)] d0])
   = Inr [Some 2, None, None, None, None]"
  "map_sum id (map (map_option max_patience) \<circ> customers \<circ> customer_queue \<circ> snd)
     (sc_run (ServiceController_init demo_book [hasty])
        [OpStartDay 1 d0, OpUpdate 1 [(''patience_decay'', - 1)] d0])
   = Inr [Some 1, None, None, None, None]"
  by (simp_all add: sc_eval)

lemma run_c:
  "map_sum id (map (map_option patience) \<circ> customers \<circ> customer_queue \<circ> snd)
     (sc_run (ServiceController_init demo_book [grumpy]) [OpStartDay 1 d0])
   = Inr [Some (- 1), None, None, None, None]"
  by (simp add: sc_eval)

lemma run_d:
  "map_sum id (map (map_option patience) \<circ> customers \<circ> customer_queue \<circ> snd)
     (sc_run (ServiceController_init demo_book [hasty]) [OpStartDay 1 d0])
   = Inr [Some 1, None, None, None, None]"
  by (simp add: sc_eval)

text \<open>
  A customer of patience 1 aged by a tick of 2 s leaves with patience \<open>- 1\<close>. A negative
  \<open>patience_decay\<close> modifier raises the patience above \<open>max_patience\<close>, and a template of
  negative patience puts a customer of negative patience in a slot.
\<close>

theorem C2_patience_bounds_counterexample:
  "map_sum id (map patience \<circ> fst)
     (sc_run (ServiceController_init demo_book [hasty]) [OpStartDay 1 d0, OpUpdate 2 [] d0])
     = Inr [- 1, - 1]
   \<and> map_sum id (map (map_option patience) \<circ> customers \<circ> customer_queue \<circ> snd)
       (sc_run (ServiceController_init demo_book [hasty])
          [OpStartDay 1 d0, OpUpdate 1 [(''patience_decay'', - 1)] d0])
     = Inr [Some 2, None, None, None, None]
   \<and> map_sum id (map (map_option max_patience) \<circ> customers \<circ> customer_queue \<circ> snd)
       (sc_run (ServiceController_init demo_book [hasty])
          [OpStartDay 1 d0, OpUpdate 1 [(''patience_decay'', - 1)] d0])
     = Inr [Some 1, None, None, None, None]
   \<and> map_sum id (map (map_option patience) \<circ> customers \<circ> customer_queue \<circ> snd)
       (sc_run (ServiceController_init demo_book [grumpy]) [OpStartDay 1 d0])
     = Inr [Some (- 1), None, None, None, None]"
  using run_a run_b run_c by blast

theorem C2_patience_bounds_witness:
  "0 \<le> t_patience hasty \<and> op_ok (OpStartDay 1 d0) \<and> op_ok (OpUpdate 2 [] d0)
   \<and> map_sum id
        (\<lambda>(left, sc).
           (map patience left,
            list_all (\<lambda>c. patience c \<le> 0 \<and> 0 \<le> max_patience c) left,
            list_all (\<lambda>slot. case slot of None \<Rightarrow> True
                        | Some c \<Rightarrow> 0 \<le> patience c \<and> patience c \<le> max_patience c)
              (customers (customer_queue sc))))
        (sc_run (ServiceController_init demo_book [hasty]) [OpStartDay 1 d0, OpUpdate 2 [] d0])
      = Inr ([- 1, - 1], True, True)
   \<and> map_sum id
        (\<lambda>(left, sc).
           (map (map_option patience) (customers (customer_queue sc)),
            list_all (\<lambda>slot. case slot of None \<Rightarrow> True
                        | Some c \<Rightarrow> 0 \<le> patience c \<and> patience c \<le> max_patience c)
              (customers (customer_queue sc))))
        (sc_run (ServiceController_init demo_book [hasty]) [OpStartDay 1 d0])
      = Inr ([Some 1, None, None, None, None], True)"
proof -
  have pool: "\<forall>t \<in> set [hasty]. 0 \<le> t_patience t" by (simp add: hasty_def)
  have ops2: "\<forall>op \<in> set [OpStartDay 1 d0, OpUpdate 2 [] d0]. op_ok op" by (simp add: dict_get_def)
  have ops1: "\<forall>op \<in> set [OpStartDay 1 d0]. op_ok op" by simp
  obtain left2 sc2 where
    r2: "sc_run (ServiceController_init demo_book [hasty]) [OpStartDay 1 d0, OpUpdate 2 [] d0]
           = Inr (left2, sc2)"
    using run_a by (cases "sc_run (ServiceController_init demo_book [hasty])
                              [OpStartDay 1 d0, OpUpdate 2 [] d0]") auto
  obtain left1 sc1 where
    r1: "sc_run (ServiceController_init demo_book [hasty]) [OpStartDay 1 d0] = Inr (left1, sc1)"
    using run_d by (cases "sc_run (ServiceController_init demo_book [hasty]) [OpStartDay 1 d0]") auto
  have slots: "list_all (\<lambda>slot. case slot of None \<Rightarrow> True
                        | Some c \<Rightarrow> 0 \<le> patience c \<and> patience c \<le> max_patience c) cs"
    if "\<forall>c. Some c \<in> set cs \<longrightarrow> 0 \<le> patience c \<and> patience c \<le> max_patience c"
    for cs :: "Customer option list"
    using that by (auto simp: list_all_iff split: option.splits)
  from C2_patience_bounds [OF pool ops2 r2] C2_patience_bounds [OF pool ops1 r1]
  show ?thesis
    using run_a run_d r1 r2 slots [of "customers (customer_queue sc2)"]
      slots [of "customers (customer_queue sc1)"]
    by (simp add: hasty_def dict_get_def list_all_iff)
qed

section \<open>Properties of the portal event\<close>









subsection \<open>Draining inside one binade\<close>



subsection \<open>The fixed-timestep run in binary64\<close>





































end
